theory Spec2Isabelle
  imports Complex_Main
begin

section \<open>Data model of the outline pipeline\<close>

text \<open>
  The render-event-to-pixel pipeline of react-scan (\<^verbatim>\<open>new-outlines/index.ts\<close>) and the
  option validation of \<^verbatim>\<open>core/index.ts\<close>.

  JavaScript numbers are modelled as natural numbers where the code only counts
  (\<^verbatim>\<open>count\<close>, fiber ids). A coordinate of a \<^verbatim>\<open>DOMRect\<close> is the real number its
  double denotes; the operations that round (the sum and the difference of two doubles,
  the store into a \<^verbatim>\<open>Float32Array\<close>) are parameters \<open>fadd\<close>, \<open>fsub\<close> and \<open>fround\<close> of
  the functions that use them, so nothing is assumed about their results. Object identity (a fiber used as a \<^verbatim>\<open>Map\<close> key,
  a DOM node used as a \<^verbatim>\<open>Map\<close>/\<^verbatim>\<open>Set\<close> key) is a natural number.
\<close>

text \<open>A \<^verbatim>\<open>fiber.stateNode\<close>: a DOM \<^verbatim>\<open>Element\<close>, or anything that is not
  (\<^verbatim>\<open>instanceof Element\<close> is false).\<close>

datatype stateNode = Element nat | NonElement nat

text \<open>\<^verbatim>\<open>DOMRect\<close>.\<close>

record rect =
  x :: real
  y :: real
  width :: real
  height :: real

text \<open>\<^verbatim>\<open>BlueprintOutline\<close>: \<^verbatim>\<open>{ name, count, elements, didCommit: 0 | 1 }\<close>.\<close>

record BlueprintOutline =
  name :: string
  count :: nat
  elements :: "stateNode list"
  didCommit :: nat

text \<open>
  What \<^verbatim>\<open>outlineFiber\<close> reads from a \<^verbatim>\<open>Fiber\<close> at the moment of one render
  notification. \<^verbatim>\<open>fiberRef\<close> is the identity of the fiber object (the \<^verbatim>\<open>Map\<close> key);
  the other fields are the results of the external \<^verbatim>\<open>bippy\<close> helpers on it:
  \<^verbatim>\<open>isCompositeFiber(fiber)\<close>, \<^verbatim>\<open>fiber.type\<close> when it is a string, \<^verbatim>\<open>getDisplayName(fiber)\<close>
  (\<^verbatim>\<open>null\<close> is \<open>None\<close>), the state nodes of \<^verbatim>\<open>getNearestHostFibers(fiber)\<close>, and
  \<^verbatim>\<open>didFiberCommit(fiber)\<close>.
\<close>

record Fiber =
  fiberRef :: nat
  isCompositeFiber :: bool
  typeString :: "string option"
  getDisplayName :: "string option"
  getNearestHostFibers :: "stateNode list"
  didFiberCommit :: bool

text \<open>The aggregation window: \<^verbatim>\<open>blueprintMap\<close> (a \<^verbatim>\<open>Map<Fiber, BlueprintOutline>\<close>) and
  \<^verbatim>\<open>blueprintMapKeys\<close> (a \<^verbatim>\<open>Set<Fiber>\<close>, in insertion order).\<close>

record window =
  blueprintMap :: "nat \<rightharpoonup> BlueprintOutline"
  blueprintMapKeys :: "nat list"

definition emptyWindow :: window where
  "emptyWindow = \<lparr>blueprintMap = Map.empty, blueprintMapKeys = []\<rparr>"

text \<open>\<^verbatim>\<open>Set.prototype.add\<close> on an insertion-ordered set.\<close>

definition setAdd :: "'a \<Rightarrow> 'a list \<Rightarrow> 'a list" where
  "setAdd a s = (if a \<in> set s then s else s @ [a])"

text \<open>\<^verbatim>\<open>new Set(elements)\<close>: the first occurrence of each member, in order.\<close>

definition newSet :: "'a list \<Rightarrow> 'a list" where
  "newSet as = foldl (\<lambda>s a. setAdd a s) [] as"

section \<open>Blueprint aggregation: \<^verbatim>\<open>outlineFiber\<close>\<close>

text \<open>The name the blueprint gets:
  \<^verbatim>\<open>typeof fiber.type === 'string' ? fiber.type : getDisplayName(fiber)\<close>.\<close>

definition fiberName :: "Fiber \<Rightarrow> string option" where
  "fiberName fiber = (case typeString fiber of Some s \<Rightarrow> Some s | None \<Rightarrow> getDisplayName fiber)"

text \<open>JavaScript truthiness of a name: \<^verbatim>\<open>null\<close> and the empty string are falsy.\<close>

definition truthyName :: "string option \<Rightarrow> bool" where
  "truthyName n = (case n of None \<Rightarrow> False | Some s \<Rightarrow> s \<noteq> [])"

definition outlineFiber :: "Fiber \<Rightarrow> window \<Rightarrow> window" where
  "outlineFiber fiber w =
     (if \<not> isCompositeFiber fiber then w
      else if \<not> truthyName (fiberName fiber) then w
      else
        (case blueprintMap w (fiberRef fiber) of
           None \<Rightarrow>
             w\<lparr>blueprintMap := (blueprintMap w)(fiberRef fiber \<mapsto>
                  \<lparr>name = the (fiberName fiber),
                   count = 1,
                   elements = getNearestHostFibers fiber,
                   didCommit = (if didFiberCommit fiber then 1 else 0)\<rparr>),
               blueprintMapKeys := setAdd (fiberRef fiber) (blueprintMapKeys w)\<rparr>
         | Some blueprint \<Rightarrow>
             w\<lparr>blueprintMap := (blueprintMap w)(fiberRef fiber \<mapsto>
                  blueprint\<lparr>count := count blueprint + 1\<rparr>)\<rparr>))"

text \<open>A sequence of render notifications, in arrival order.\<close>

definition outlineFibers :: "Fiber list \<Rightarrow> window \<Rightarrow> window" where
  "outlineFibers fibers w = foldl (\<lambda>w' fiber. outlineFiber fiber w') w fibers"

text \<open>A notification that \<^verbatim>\<open>outlineFiber\<close> aggregates: composite, with a truthy name.\<close>

definition aggregated :: "Fiber \<Rightarrow> bool" where
  "aggregated fiber = (isCompositeFiber fiber \<and> truthyName (fiberName fiber))"

section \<open>Rectangle merging: \<^verbatim>\<open>mergeRects\<close>\<close>

text \<open>\<^verbatim>\<open>rects[i]\<close>: \<^verbatim>\<open>undefined\<close> (here \<open>None\<close>) out of range.\<close>

definition index :: "'a list \<Rightarrow> nat \<Rightarrow> 'a option" where
  "index as i = (if i < length as then Some (as ! i) else None)"

text \<open>The four accumulators \<^verbatim>\<open>minX, minY, maxX, maxY\<close>, each \<^verbatim>\<open>undefined\<close> at first.\<close>

record bounds =
  minX :: "real option"
  minY :: "real option"
  maxX :: "real option"
  maxY :: "real option"

text \<open>One iteration of the \<^verbatim>\<open>for\<close> loop of \<^verbatim>\<open>mergeRects\<close>. \<open>fadd\<close> is the addition of
  doubles (\<^verbatim>\<open>rect.x + rect.width\<close> is rounded to a double), \<open>fsub\<close> below their
  subtraction; \<^verbatim>\<open>Math.min\<close> and \<^verbatim>\<open>Math.max\<close> return one of their arguments and do not
  round.\<close>

definition mergeStep :: "(real \<Rightarrow> real \<Rightarrow> real) \<Rightarrow> bounds \<Rightarrow> rect \<Rightarrow> bounds" where
  "mergeStep fadd b r =
     \<lparr>minX = Some (case minX b of None \<Rightarrow> x r | Some m \<Rightarrow> min m (x r)),
      minY = Some (case minY b of None \<Rightarrow> y r | Some m \<Rightarrow> min m (y r)),
      maxX = Some (case maxX b of None \<Rightarrow> fadd (x r) (width r)
                   | Some m \<Rightarrow> max m (fadd (x r) (width r))),
      maxY = Some (case maxY b of None \<Rightarrow> fadd (y r) (height r)
                   | Some m \<Rightarrow> max m (fadd (y r) (height r)))\<rparr>"

text \<open>\<^verbatim>\<open>mergeRects\<close>; \<^verbatim>\<open>new DOMRect(minX, minY, maxX - minX, maxY - minY)\<close> subtracts in
  doubles.\<close>

definition mergeRects :: "(real \<Rightarrow> real \<Rightarrow> real) \<Rightarrow> (real \<Rightarrow> real \<Rightarrow> real) \<Rightarrow>
    rect list \<Rightarrow> rect option" where
  "mergeRects fadd fsub rects =
     (let firstRect = index rects 0 in
      if length rects = 1 then firstRect
      else
        (let b = foldl (mergeStep fadd)
                   \<lparr>minX = None, minY = None, maxX = None, maxY = None\<rparr> rects in
         case (minX b, minY b, maxX b, maxY b) of
           (Some mnX, Some mnY, Some mxX, Some mxY) \<Rightarrow>
             Some \<lparr>x = mnX, y = mnY, width = fsub mxX mnX, height = fsub mxY mnY\<rparr>
         | _ \<Rightarrow> index rects 0))"

section \<open>Batched visibility resolution: \<^verbatim>\<open>onIntersect\<close> and \<^verbatim>\<open>getBatchedRectMap\<close>\<close>

text \<open>\<^verbatim>\<open>IntersectionObserverEntry\<close>, the fields the pipeline reads.\<close>

record IntersectionObserverEntry =
  target :: stateNode
  intersectionRect :: rect
  isIntersecting :: bool

text \<open>
  \<^verbatim>\<open>IntersectionState\<close>. \<^verbatim>\<open>resolveNext\<close> is the resolver of the promise the generator
  currently awaits, or \<^verbatim>\<open>null\<close>: the model keeps whether it is set, and \<^verbatim>\<open>onIntersect\<close>
  returns the values it was called with. The field \<^verbatim>\<open>done\<close> is \<open>doneFlag\<close> here.
\<close>

record IntersectionState =
  resolveNext :: bool
  seenElements :: "stateNode list"
  uniqueElements :: "stateNode list"
  doneFlag :: bool

text \<open>The \<^verbatim>\<open>for (const entry of entries)\<close> loop of \<^verbatim>\<open>onIntersect\<close>.\<close>

fun collectNew :: "IntersectionObserverEntry list \<Rightarrow> stateNode list \<Rightarrow>
    IntersectionObserverEntry list \<Rightarrow> stateNode list \<times> IntersectionObserverEntry list" where
  "collectNew [] seen newEntries = (seen, newEntries)"
| "collectNew (entry # entries) seen newEntries =
     (if target entry \<notin> set seen
      then collectNew entries (setAdd (target entry) seen) (newEntries @ [entry])
      else collectNew entries seen newEntries)"

text \<open>
  \<^verbatim>\<open>onIntersect\<close>: the new state, the values passed to \<^verbatim>\<open>resolveNext\<close> in call order, and
  whether \<^verbatim>\<open>observer.disconnect()\<close> was called.
\<close>

definition onIntersect :: "IntersectionState \<Rightarrow> IntersectionObserverEntry list \<Rightarrow>
    IntersectionState \<times> IntersectionObserverEntry list list \<times> bool" where
  "onIntersect this entries =
     (let (seen, newEntries) = collectNew entries (seenElements this) [];
          s1 = this\<lparr>seenElements := seen\<rparr>;
          (s2, calls) =
            (if newEntries \<noteq> [] \<and> resolveNext s1
             then (s1\<lparr>resolveNext := False\<rparr>, [newEntries])
             else (s1, []))
      in if length (seenElements s2) = length (uniqueElements s2)
         then (s2\<lparr>doneFlag := True\<rparr>, calls @ (if resolveNext s2 then [[]] else []), True)
         else (s2, calls, False))"

text \<open>
  One run of the generator \<^verbatim>\<open>getBatchedRectMap\<close> together with its observer:
  the shared state, whether the observer is still connected, the batches yielded so far,
  and whether the generator has returned.
\<close>

record pass =
  state :: IntersectionState
  observing :: bool
  yielded :: "IntersectionObserverEntry list list"
  returned :: bool

text \<open>The head of the \<^verbatim>\<open>while (!state.done)\<close> loop: install a new resolver and await, or
  return.\<close>

definition awaitNext :: "pass \<Rightarrow> pass" where
  "awaitNext p =
     (if \<not> doneFlag (state p) then p\<lparr>state := (state p)\<lparr>resolveNext := True\<rparr>\<rparr>
      else p\<lparr>returned := True\<rparr>)"

text \<open>The generator resumes with the value of the awaited promise: a non-empty batch is
  yielded (the consumer's loop body is synchronous and asks for the next batch at once),
  then the loop head runs again.\<close>

definition resume :: "pass \<Rightarrow> IntersectionObserverEntry list \<Rightarrow> pass" where
  "resume p entries =
     awaitNext (if entries \<noteq> [] then p\<lparr>yielded := yielded p @ [entries]\<rparr> else p)"

text \<open>The first \<^verbatim>\<open>next()\<close>: the state is created, every member of \<^verbatim>\<open>uniqueElements\<close> is
  observed, and the loop head runs.\<close>

definition startPass :: "stateNode list \<Rightarrow> pass" where
  "startPass elems =
     awaitNext \<lparr>state = \<lparr>resolveNext = False, seenElements = [],
                          uniqueElements = newSet elems, doneFlag = False\<rparr>,
                observing = True, yielded = [], returned = False\<rparr>"

text \<open>
  One host task: the observer callback runs \<^verbatim>\<open>onIntersect\<close>, then the microtasks run, in
  which a promise that was resolved resumes the generator (only the first resolution of a
  promise counts). A disconnected observer delivers nothing.
\<close>

definition hostCallback :: "pass \<Rightarrow> IntersectionObserverEntry list \<Rightarrow> pass" where
  "hostCallback p entries =
     (if \<not> observing p then p
      else
        (let (s, calls, disconnected) = onIntersect (state p) entries;
             p1 = p\<lparr>state := s, observing := \<not> disconnected\<rparr>
         in case calls of [] \<Rightarrow> p1 | v # _ \<Rightarrow> resume p1 v))"

text \<open>\<^verbatim>\<open>getBatchedRectMap(elements)\<close> driven by the host's callbacks, in order.\<close>

definition getBatchedRectMap :: "stateNode list \<Rightarrow> IntersectionObserverEntry list list \<Rightarrow> pass" where
  "getBatchedRectMap elems callbacks = foldl hostCallback (startPass elems) callbacks"

text \<open>The invariant of a pass whose set of observed elements is \<open>U\<close>: the targets of the
  yielded entries are exactly the seen elements, in order and without repetition; no
  yielded batch is empty; while the observer is connected the generator is awaiting with
  a resolver installed, and once it is disconnected the generator has returned.\<close>

definition passInv :: "stateNode list \<Rightarrow> pass \<Rightarrow> bool" where
  "passInv U p =
     (uniqueElements (state p) = U \<and> distinct (seenElements (state p))
      \<and> map target (concat (yielded p)) = seenElements (state p)
      \<and> [] \<notin> set (yielded p)
      \<and> (if observing p
         then resolveNext (state p) \<and> \<not> doneFlag (state p) \<and> \<not> returned p
         else doneFlag (state p) \<and> returned p
              \<and> length (seenElements (state p)) = length U))"

section \<open>Frame flushing: \<^verbatim>\<open>flushOutlines\<close>\<close>

datatype error = TypeError

text \<open>\<^verbatim>\<open>rectsMap\<close>, a \<^verbatim>\<open>Map<Element, DOMRect>\<close>.\<close>

type_synonym rectsMap = "stateNode \<rightharpoonup> rect"

text \<open>The first loop of \<^verbatim>\<open>flushOutlines\<close>: the state nodes of all blueprints that are
  \<^verbatim>\<open>Element\<close>s, in key order.\<close>

fun isElement :: "stateNode \<Rightarrow> bool" where
  "isElement (Element n) = True"
| "isElement (NonElement n) = False"

fun collectElements :: "(nat \<rightharpoonup> BlueprintOutline) \<Rightarrow> nat list \<Rightarrow> stateNode list" where
  "collectElements bm [] = []"
| "collectElements bm (fiber # fibers) =
     (case bm fiber of
        None \<Rightarrow> collectElements bm fibers
      | Some blueprint \<Rightarrow> filter isElement (elements blueprint) @ collectElements bm fibers)"

text \<open>The loop over one batch: an entry that intersects with a rectangle of truthy
  (non-zero) width and height is stored under its target.\<close>

definition storeEntry :: "rectsMap \<Rightarrow> IntersectionObserverEntry \<Rightarrow> rectsMap" where
  "storeEntry m entry =
     (if isIntersecting entry \<and> width (intersectionRect entry) \<noteq> 0
         \<and> height (intersectionRect entry) \<noteq> 0
      then m(target entry \<mapsto> intersectionRect entry) else m)"

definition accumulate :: "rectsMap \<Rightarrow> IntersectionObserverEntry list \<Rightarrow> rectsMap" where
  "accumulate m entries = foldl storeEntry m entries"

text \<open>The inner loop over \<^verbatim>\<open>blueprint.elements\<close>: the rectangles found in \<^verbatim>\<open>rectsMap\<close>.\<close>

fun resolvedRects :: "rectsMap \<Rightarrow> stateNode list \<Rightarrow> rect list" where
  "resolvedRects m [] = []"
| "resolvedRects m (element # rest) =
     (case m element of
        None \<Rightarrow> resolvedRects m rest
      | Some r \<Rightarrow> r # resolvedRects m rest)"

text \<open>
  The loop over \<^verbatim>\<open>blueprintMapKeys\<close>. Each blueprint that is kept gives one triple: the
  blueprint, the list \<^verbatim>\<open>rects\<close> that is passed to \<^verbatim>\<open>mergeRects\<close>, and
  \<^verbatim>\<open>getFiberId(fiber)\<close> (an external function, a parameter here).
\<close>

fun blueprintLoop :: "(nat \<Rightarrow> nat) \<Rightarrow> rectsMap \<Rightarrow> (nat \<rightharpoonup> BlueprintOutline) \<Rightarrow> nat list \<Rightarrow>
    (BlueprintOutline \<times> rect list \<times> nat) list" where
  "blueprintLoop getFiberId m bm [] = []"
| "blueprintLoop getFiberId m bm (fiber # fibers) =
     (case bm fiber of
        None \<Rightarrow> blueprintLoop getFiberId m bm fibers
      | Some blueprint \<Rightarrow>
          (let rects = resolvedRects m (elements blueprint) in
           if rects = [] then blueprintLoop getFiberId m bm fibers
           else (blueprint, rects, getFiberId fiber) # blueprintLoop getFiberId m bm fibers))"

text \<open>The three parallel arrays \<^verbatim>\<open>blueprints\<close>, \<^verbatim>\<open>blueprintRects\<close> and \<^verbatim>\<open>blueprintIds\<close>,
  as one list of triples; \<^verbatim>\<open>blueprintRects[i]\<close> is what \<^verbatim>\<open>mergeRects\<close> returned.\<close>

definition outlineRecords :: "(real \<Rightarrow> real \<Rightarrow> real) \<Rightarrow> (real \<Rightarrow> real \<Rightarrow> real) \<Rightarrow>
    (nat \<Rightarrow> nat) \<Rightarrow> rectsMap \<Rightarrow> window \<Rightarrow>
    (BlueprintOutline \<times> rect option \<times> nat) list" where
  "outlineRecords fadd fsub getFiberId m w =
     map (\<lambda>(blueprint, rects, fid). (blueprint, mergeRects fadd fsub rects, fid))
       (blueprintLoop getFiberId m (blueprintMap w) (blueprintMapKeys w))"

subsection \<open>Dispatch to the renderer\<close>

text \<open>Modelled from the spec: the constant \<^verbatim>\<open>OUTLINE_ARRAY_SIZE\<close> is imported from
  \<^verbatim>\<open>./canvas\<close>, which is not among the sources; the spec gives 7 numeric slots per
  record.\<close>

definition OUTLINE_ARRAY_SIZE :: nat where
  "OUTLINE_ARRAY_SIZE = 7"

text \<open>\<^verbatim>\<open>OutlineData\<close>: \<^verbatim>\<open>{ id, name, count, x, y, width, height, didCommit }\<close>; the fields
  carry the prefix \<open>o\<close> here.\<close>

record OutlineData =
  oid :: nat
  oname :: string
  ocount :: nat
  ox :: real
  oy :: real
  owidth :: real
  oheight :: real
  odidCommit :: nat

text \<open>An \<^verbatim>\<open>ArrayBuffer\<close> with the \<^verbatim>\<open>Float32Array\<close> view of its content.\<close>

record arrayBuffer =
  byteLength :: nat
  float32 :: "real list"

text \<open>What a dispatch does to the outside: \<^verbatim>\<open>worker.postMessage({type, data, names})\<close>,
  \<^verbatim>\<open>updateOutlines(activeOutlines, outlineData)\<close>, \<^verbatim>\<open>requestAnimationFrame(draw)\<close>.
  An array slot that was never assigned is \<open>None\<close>.\<close>

datatype effect =
    PostMessage string arrayBuffer "string option list"
  | UpdateOutlines "OutlineData option list"
  | RequestAnimationFrame

text \<open>The module variables the dispatch reads: whether \<^verbatim>\<open>worker\<close>, \<^verbatim>\<open>canvas\<close>, \<^verbatim>\<open>ctx\<close>
  and \<^verbatim>\<open>animationFrameId\<close> are set.\<close>

record renderer =
  worker :: bool
  canvas :: bool
  ctx :: bool
  animationFrameId :: bool

record fillState =
  sharedView :: "real list"
  blueprintNames :: "string option list"
  outlineData :: "OutlineData option list option"

text \<open>
  The \<^verbatim>\<open>for\<close> loop that fills the buffer or the record array, from index \<open>i\<close> on.
  \<open>fround\<close> is the rounding a \<^verbatim>\<open>Float32Array\<close> applies to a stored number; \<open>len\<close> is
  \<^verbatim>\<open>blueprints.length\<close>. Destructuring an \<^verbatim>\<open>undefined\<close> rectangle throws. A write to a
  typed array outside its length is ignored, as \<open>list_update\<close> does.
\<close>

fun fill :: "(real \<Rightarrow> real) \<Rightarrow> bool \<Rightarrow> nat \<Rightarrow> nat \<Rightarrow>
    (BlueprintOutline \<times> rect option \<times> nat) list \<Rightarrow> fillState \<Rightarrow> error + fillState" where
  "fill fround wk len i [] s = Inr s"
| "fill fround wk len i ((blueprint, None, fid) # rest) s = Inl TypeError"
| "fill fround wk len i ((blueprint, Some r, fid) # rest) s =
     fill fround wk len (i + 1) rest
       (if wk then
          (let scaledIndex = i * OUTLINE_ARRAY_SIZE in
           s\<lparr>sharedView := (sharedView s)
                [scaledIndex := fround (real fid),
                 scaledIndex + 1 := fround (real (count blueprint)),
                 scaledIndex + 2 := fround (x r),
                 scaledIndex + 3 := fround (y r),
                 scaledIndex + 4 := fround (width r),
                 scaledIndex + 5 := fround (height r),
                 scaledIndex + 6 := fround (real (didCommit blueprint))],
             blueprintNames := (blueprintNames s)[i := Some (name blueprint)]\<rparr>)
        else
          s\<lparr>outlineData := Some
               ((case outlineData s of None \<Rightarrow> replicate len None | Some data \<Rightarrow> data)
                  [i := Some \<lparr>oid = fid, oname = name blueprint, ocount = count blueprint,
                              ox = x r, oy = y r, owidth = width r, oheight = height r,
                              odidCommit = didCommit blueprint\<rparr>])\<rparr>)"

text \<open>The body of \<^verbatim>\<open>if (blueprints.length > 0)\<close>: allocate, fill, and hand over.\<close>

definition dispatch :: "(real \<Rightarrow> real) \<Rightarrow> renderer \<Rightarrow>
    (BlueprintOutline \<times> rect option \<times> nat) list \<Rightarrow> error + (effect list \<times> renderer)" where
  "dispatch fround rend records =
     (if records = [] then Inr ([], rend)
      else
        (let len = length records;
             bytes = len * OUTLINE_ARRAY_SIZE * 4
         in case fill fround (worker rend) len 0 records
                  \<lparr>sharedView = replicate (bytes div 4) 0,
                   blueprintNames = replicate len None,
                   outlineData = None\<rparr> of
              Inl e \<Rightarrow> Inl e
            | Inr s \<Rightarrow>
                if worker rend then
                  Inr ([PostMessage ''draw-outlines''
                          \<lparr>byteLength = bytes, float32 = sharedView s\<rparr> (blueprintNames s)],
                       rend)
                else if canvas rend \<and> ctx rend \<and> outlineData s \<noteq> None then
                  Inr (UpdateOutlines (the (outlineData s))
                         # (if \<not> animationFrameId rend then [RequestAnimationFrame] else []),
                       rend\<lparr>animationFrameId := True\<rparr>)
                else Inr ([], rend)))"

subsection \<open>The batch loop and the whole cycle\<close>

text \<open>
  The body of \<^verbatim>\<open>for await (const entries of getBatchedRectMap(elements))\<close> for one
  batch, with the aggregation window as it is when the batch arrives.
\<close>

definition flushBatch :: "(real \<Rightarrow> real) \<Rightarrow> (real \<Rightarrow> real \<Rightarrow> real) \<Rightarrow>
    (real \<Rightarrow> real \<Rightarrow> real) \<Rightarrow> (nat \<Rightarrow> nat) \<Rightarrow> rectsMap \<times> renderer \<Rightarrow>
    IntersectionObserverEntry list \<times> window \<Rightarrow> error + (effect list \<times> rectsMap \<times> renderer)" where
  "flushBatch fround fadd fsub getFiberId st step =
     (let m = accumulate (fst st) (fst step) in
      case dispatch fround (snd st) (outlineRecords fadd fsub getFiberId m (snd step)) of
        Inl e \<Rightarrow> Inl e
      | Inr (effects, rend) \<Rightarrow> Inr (effects, m, rend))"

text \<open>The batches in arrival order; the result lists the effects of each batch.\<close>

fun flushLoop :: "(real \<Rightarrow> real) \<Rightarrow> (real \<Rightarrow> real \<Rightarrow> real) \<Rightarrow>
    (real \<Rightarrow> real \<Rightarrow> real) \<Rightarrow> (nat \<Rightarrow> nat) \<Rightarrow> rectsMap \<times> renderer \<Rightarrow>
    (IntersectionObserverEntry list \<times> window) list \<Rightarrow>
    error + (effect list list \<times> rectsMap \<times> renderer)" where
  "flushLoop fround fadd fsub getFiberId st [] = Inr ([], st)"
| "flushLoop fround fadd fsub getFiberId st (step # steps) =
     (case flushBatch fround fadd fsub getFiberId st step of
        Inl e \<Rightarrow> Inl e
      | Inr (effects, st') \<Rightarrow>
          (case flushLoop fround fadd fsub getFiberId st' steps of
             Inl e \<Rightarrow> Inl e
           | Inr (out, st'') \<Rightarrow> Inr (effects # out, st'')))"

text \<open>
  One cycle of \<^verbatim>\<open>flushOutlines\<close> with no render notification arriving while it runs: the
  elements are collected, the resolver is driven by the host's callbacks, every yielded
  batch goes through the loop body starting from an empty \<^verbatim>\<open>rectsMap\<close>, and once the
  generator has returned every key of \<^verbatim>\<open>blueprintMapKeys\<close> is deleted from both containers. While
  the generator has not returned, the function is still suspended and the window is
  untouched (\<open>None\<close> for the window after the cycle).
\<close>

definition flushOutlines :: "(real \<Rightarrow> real) \<Rightarrow> (real \<Rightarrow> real \<Rightarrow> real) \<Rightarrow>
    (real \<Rightarrow> real \<Rightarrow> real) \<Rightarrow> (nat \<Rightarrow> nat) \<Rightarrow> renderer \<Rightarrow> window \<Rightarrow>
    IntersectionObserverEntry list list \<Rightarrow>
    error + (effect list list \<times> renderer \<times> window option)" where
  "flushOutlines fround fadd fsub getFiberId rend w callbacks =
     (let p = getBatchedRectMap (collectElements (blueprintMap w) (blueprintMapKeys w)) callbacks
      in case flushLoop fround fadd fsub getFiberId (Map.empty, rend) (map (\<lambda>entries. (entries, w)) (yielded p)) of
           Inl e \<Rightarrow> Inl e
         | Inr (out, m, rend') \<Rightarrow>
             Inr (out, rend',
                  if returned p
                  then Some \<lparr>blueprintMap = (\<lambda>fiber. if fiber \<in> set (blueprintMapKeys w) then None
                                                  else blueprintMap w fiber),
                             blueprintMapKeys = []\<rparr>
                  else None))"

subsection \<open>Layout of the transport buffer\<close>

text \<open>
  The layout of record \<open>i\<close> in the transport buffer and the name list, in the words of
  the specification: seven slots from offset \<open>i * 7\<close> on, holding id, count, x, y, width,
  height and didCommit in this order, and \<open>names[i]\<close> the name of the record.
\<close>

definition recordAt :: "(real \<Rightarrow> real) \<Rightarrow> real list \<Rightarrow> string option list \<Rightarrow> nat \<Rightarrow>
    (BlueprintOutline \<times> rect option \<times> nat) \<Rightarrow> bool" where
  "recordAt fround view names i rec =
     (case rec of (bp, ro, fid) \<Rightarrow>
        view ! (i * OUTLINE_ARRAY_SIZE) = fround (real fid)
      \<and> view ! (i * OUTLINE_ARRAY_SIZE + 1) = fround (real (count bp))
      \<and> view ! (i * OUTLINE_ARRAY_SIZE + 2) = fround (x (the ro))
      \<and> view ! (i * OUTLINE_ARRAY_SIZE + 3) = fround (y (the ro))
      \<and> view ! (i * OUTLINE_ARRAY_SIZE + 4) = fround (width (the ro))
      \<and> view ! (i * OUTLINE_ARRAY_SIZE + 5) = fround (height (the ro))
      \<and> view ! (i * OUTLINE_ARRAY_SIZE + 6) = fround (real (didCommit bp))
      \<and> names ! i = Some (name bp))"

subsection \<open>The in-process records\<close>



section \<open>Option validation: \<^verbatim>\<open>validateOptions\<close> and \<^verbatim>\<open>setOptions\<close>\<close>

text \<open>The JavaScript values an option can hold.\<close>

datatype jsValue =
    Undefined
  | Null
  | Boolean bool
  | String string
  | Number int
  | Function nat

text \<open>An options object: its own enumerable properties, in enumeration order, each key
  once.\<close>

type_synonym options = "(string \<times> jsValue) list"

definition objectKeys :: "options \<Rightarrow> string list" where
  "objectKeys obj = map fst obj"

text \<open>\<^verbatim>\<open>obj.hasOwnProperty(key)\<close>, for an object that inherits the method from
  \<^verbatim>\<open>Object.prototype\<close>: an options object that has a field of this name, or no prototype,
  is outside the model (there the call itself can throw).\<close>

definition hasOwnProperty :: "options \<Rightarrow> string \<Rightarrow> bool" where
  "hasOwnProperty obj key = (key \<in> set (objectKeys obj))"

text \<open>\<^verbatim>\<open>obj[key]\<close>: \<^verbatim>\<open>undefined\<close> for a missing key.\<close>

definition getProp :: "options \<Rightarrow> string \<Rightarrow> jsValue" where
  "getProp obj key = (case map_of obj key of None \<Rightarrow> Undefined | Some v \<Rightarrow> v)"

text \<open>\<^verbatim>\<open>obj[key] = value\<close>: an existing key keeps its place, a new key goes last.\<close>

fun setProp :: "string \<Rightarrow> jsValue \<Rightarrow> options \<Rightarrow> options" where
  "setProp key v [] = [(key, v)]"
| "setProp key v ((key', v') # rest) =
     (if key' = key then (key, v) # rest else (key', v') # setProp key v rest)"

text \<open>The object spread \<^verbatim>\<open>{ ...a, ...b }\<close>.\<close>

definition spread :: "options \<Rightarrow> options \<Rightarrow> options" where
  "spread a b = foldl (\<lambda>obj (key, v). setProp key v obj) a b"

text \<open>The initial value of \<^verbatim>\<open>ReactScanInternals.options\<close>.\<close>

definition defaultOptions :: options where
  "defaultOptions =
     [(''enabled'', Boolean True),
      (''log'', Boolean False),
      (''showToolbar'', Boolean True),
      (''animationSpeed'', String ''fast''),
      (''dangerouslyForceRunInProduction'', Boolean False),
      (''showFPS'', Boolean True),
      (''showNotificationCount'', Boolean True)]"

text \<open>\<^verbatim>\<open>isOptionKey\<close>: the key is among the keys of the current options object.\<close>

definition isOptionKey :: "options \<Rightarrow> string \<Rightarrow> bool" where
  "isOptionKey current key = (key \<in> set (objectKeys current))"

definition isBoolean :: "jsValue \<Rightarrow> bool" where
  "isBoolean v = (case v of Boolean b \<Rightarrow> True | _ \<Rightarrow> False)"

definition isFunction :: "jsValue \<Rightarrow> bool" where
  "isFunction v = (case v of Function f \<Rightarrow> True | _ \<Rightarrow> False)"

text \<open>The \<^verbatim>\<open>case\<close> labels of the \<^verbatim>\<open>switch\<close> in \<^verbatim>\<open>validateOptions\<close>: the options that must
  be booleans, and those that must be functions or \<^verbatim>\<open>undefined\<close>.\<close>

definition booleanKeys :: "string set" where
  "booleanKeys = {''enabled'', ''log'', ''showToolbar'', ''showNotificationCount'',
                  ''dangerouslyForceRunInProduction'', ''trackUnnecessaryRenders'',
                  ''showFPS''}"

definition callbackKeys :: "string set" where
  "callbackKeys = {''onCommitStart'', ''onCommitFinish'', ''onPaintStart'',
                   ''onPaintFinish'', ''onRender''}"

text \<open>The error messages are kept as the key and the offending value.\<close>

datatype validationError =
    MustBeBoolean string jsValue
  | InvalidAnimationSpeed jsValue
  | InvalidDebug jsValue
  | MustBeFunction string jsValue

record validation =
  errors :: "validationError list"
  validOptions :: options

text \<open>The body of the \<^verbatim>\<open>for (const key in options)\<close> loop: the \<^verbatim>\<open>isOptionKey\<close> guard and
  the \<^verbatim>\<open>switch\<close>. Console output is not modelled.\<close>

definition validateField :: "options \<Rightarrow> validation \<Rightarrow> string \<times> jsValue \<Rightarrow> validation" where
  "validateField current acc field =
     (let key = fst field; v = snd field in
      if \<not> isOptionKey current key then acc
      else if key \<in> booleanKeys then
        (if \<not> isBoolean v then acc\<lparr>errors := errors acc @ [MustBeBoolean key v]\<rparr>
         else acc\<lparr>validOptions := setProp key v (validOptions acc)\<rparr>)
      else if key = ''animationSpeed'' then
        (if v \<notin> set [String ''slow'', String ''fast'', String ''off'']
         then acc\<lparr>errors := errors acc @ [InvalidAnimationSpeed v]\<rparr>
         else acc\<lparr>validOptions := setProp key v (validOptions acc)\<rparr>)
      else if key = ''_debug'' then
        (if v \<noteq> String ''verbose'' \<and> v \<noteq> Boolean False \<and> v \<noteq> Undefined
         then acc\<lparr>errors := errors acc @ [InvalidDebug v]\<rparr>
         else acc\<lparr>validOptions := setProp key v (validOptions acc)\<rparr>)
      else if key \<in> callbackKeys then
        (if v \<noteq> Undefined \<and> \<not> isFunction v
         then acc\<lparr>errors := errors acc @ [MustBeFunction key v]\<rparr>
         else acc\<lparr>validOptions := setProp key v (validOptions acc)\<rparr>)
      else acc)"

definition validateOptions :: "options \<Rightarrow> options \<Rightarrow> validation" where
  "validateOptions current opts =
     foldl (validateField current) \<lparr>errors = [], validOptions = []\<rparr> opts"

text \<open>The part of \<^verbatim>\<open>ReactScanInternals\<close> that \<^verbatim>\<open>setOptions\<close> touches: the options signal
  and, when an instrumentation exists, its \<^verbatim>\<open>isPaused\<close> signal.\<close>

record internals =
  optionsValue :: options
  isPaused :: "bool option"

datatype sideEffect = SaveLocalStorage options | InitToolbar bool

text \<open>JavaScript truthiness, for \<^verbatim>\<open>!!newOptions.showToolbar\<close>.\<close>

definition truthy :: "jsValue \<Rightarrow> bool" where
  "truthy v =
     (case v of Undefined \<Rightarrow> False | Null \<Rightarrow> False | Boolean b \<Rightarrow> b
      | String t \<Rightarrow> t \<noteq> [] | Number n \<Rightarrow> n \<noteq> 0 | Function f \<Rightarrow> True)"

text \<open>\<^verbatim>\<open>setOptions\<close>: the returned options object, the state after the call, and the calls
  to \<^verbatim>\<open>saveLocalStorage\<close> and \<^verbatim>\<open>initToolbar\<close> in order.\<close>

definition setOptions :: "internals \<Rightarrow> options \<Rightarrow> options \<times> internals \<times> sideEffect list" where
  "setOptions st userOptions =
     (let valid = validOptions (validateOptions (optionsValue st) userOptions) in
      if length (objectKeys valid) = 0 \<and> \<not> hasOwnProperty userOptions ''enabled''
      then (optionsValue st, st, [])
      else
        (let currentOptions = optionsValue st;
             showToolbarChanged = (hasOwnProperty valid ''showToolbar''
                \<and> getProp valid ''showToolbar'' \<noteq> getProp currentOptions ''showToolbar'');
             enabledChanged = (hasOwnProperty valid ''enabled''
                \<and> getProp valid ''enabled'' \<noteq> getProp currentOptions ''enabled'');
             newOptions = spread currentOptions valid;
             paused = (if isPaused st \<noteq> None \<and> hasOwnProperty valid ''enabled''
                       then Some (getProp valid ''enabled'' = Boolean False)
                       else isPaused st);
             storable = filter (\<lambda>(key, v). key \<notin> {''onCommitStart'', ''onRender'',
                          ''onCommitFinish'', ''onPaintStart'', ''onPaintFinish''}) newOptions;
             toolbar =
               (if showToolbarChanged \<or> (enabledChanged
                     \<and> getProp newOptions ''enabled'' = Boolean True
                     \<and> getProp newOptions ''showToolbar'' = Boolean True)
                then [InitToolbar (truthy (getProp newOptions ''showToolbar''))]
                else if enabledChanged \<and> getProp newOptions ''enabled'' = Boolean False
                then [InitToolbar False]
                else [])
         in (newOptions, \<lparr>optionsValue = newOptions, isPaused = paused\<rparr>,
             SaveLocalStorage storable # toolbar)))"

text \<open>What the \<^verbatim>\<open>Options\<close> interface and the \<^verbatim>\<open>switch\<close> of \<^verbatim>\<open>validateOptions\<close> accept for
  a key: the declared options and their admissible values.\<close>

definition validValue :: "string \<Rightarrow> jsValue \<Rightarrow> bool" where
  "validValue key v =
     (if key \<in> booleanKeys then isBoolean v
      else if key = ''animationSpeed'' then v \<in> set [String ''slow'', String ''fast'', String ''off'']
      else if key = ''_debug'' then v = String ''verbose'' \<or> v = Boolean False \<or> v = Undefined
      else if key \<in> callbackKeys then v = Undefined \<or> isFunction v
      else False)"

section \<open>Example inputs\<close>

text \<open>The scenario of the specification: identity A renders once with a commit, identity
  B twice without; A has one element, B two, of which one is off-screen.\<close>

definition fiberA :: Fiber where
  "fiberA = \<lparr>fiberRef = 11, isCompositeFiber = True, typeString = None,
     getDisplayName = Some ''A'', getNearestHostFibers = [Element 10],
     didFiberCommit = True\<rparr>"

definition fiberB :: Fiber where
  "fiberB = \<lparr>fiberRef = 12, isCompositeFiber = True, typeString = None,
     getDisplayName = Some ''B'', getNearestHostFibers = [Element 20, Element 21],
     didFiberCommit = False\<rparr>"

definition exampleWindow :: window where
  "exampleWindow = outlineFibers [fiberA, fiberB, fiberB] emptyWindow"

definition entryA :: IntersectionObserverEntry where
  "entryA = \<lparr>target = Element 10,
     intersectionRect = \<lparr>x = 0, y = 0, width = 10, height = 10\<rparr>, isIntersecting = True\<rparr>"

definition entryAoff :: IntersectionObserverEntry where
  "entryAoff = \<lparr>target = Element 10,
     intersectionRect = \<lparr>x = 0, y = 0, width = 0, height = 0\<rparr>, isIntersecting = False\<rparr>"

definition entryB1 :: IntersectionObserverEntry where
  "entryB1 = \<lparr>target = Element 20,
     intersectionRect = \<lparr>x = 20, y = 20, width = 5, height = 5\<rparr>, isIntersecting = True\<rparr>"

definition entryB2 :: IntersectionObserverEntry where
  "entryB2 = \<lparr>target = Element 21,
     intersectionRect = \<lparr>x = 0, y = 0, width = 0, height = 0\<rparr>, isIntersecting = False\<rparr>"

definition inProcess :: renderer where
  "inProcess = \<lparr>worker = False, canvas = True, ctx = True, animationFrameId = False\<rparr>"

definition withWorker :: renderer where
  "withWorker = \<lparr>worker = True, canvas = True, ctx = False, animationFrameId = False\<rparr>"

text \<open>Two render notifications for one fiber: the first without a commit, the second
  with one.\<close>

definition renderUncommitted :: Fiber where
  "renderUncommitted = \<lparr>fiberRef = 7, isCompositeFiber = True, typeString = None,
     getDisplayName = Some ''App'', getNearestHostFibers = [Element 1],
     didFiberCommit = False\<rparr>"

definition renderCommitted :: Fiber where
  "renderCommitted = \<lparr>fiberRef = 7, isCompositeFiber = True, typeString = None,
     getDisplayName = Some ''App'', getNearestHostFibers = [Element 1],
     didFiberCommit = True\<rparr>"

text \<open>A composite fiber with no host fiber below it.\<close>

definition fiberNull :: Fiber where
  "fiberNull = \<lparr>fiberRef = 13, isCompositeFiber = True, typeString = None,
     getDisplayName = Some ''N'', getNearestHostFibers = [], didFiberCommit = False\<rparr>"

section \<open>Properties of the aggregator\<close>

lemma outlineFiber_other:
  "fiberRef fiber \<noteq> k \<Longrightarrow> blueprintMap (outlineFiber fiber w) k = blueprintMap w k"
  by (simp add: outlineFiber_def split: option.splits)

lemma outlineFiber_present:
  assumes "blueprintMap w (fiberRef fiber) = Some bp" and "aggregated fiber"
  shows "blueprintMap (outlineFiber fiber w) (fiberRef fiber) = Some (bp\<lparr>count := count bp + 1\<rparr>)"
  using assms by (simp add: outlineFiber_def aggregated_def)

lemma outlineFiber_absent:
  assumes "blueprintMap w (fiberRef fiber) = None" and "aggregated fiber"
  shows "blueprintMap (outlineFiber fiber w) (fiberRef fiber) =
           Some \<lparr>name = the (fiberName fiber), count = 1,
                 elements = getNearestHostFibers fiber,
                 didCommit = (if didFiberCommit fiber then 1 else 0)\<rparr>"
  using assms by (simp add: outlineFiber_def aggregated_def)

lemma outlineFibers_present:
  assumes "blueprintMap w k = Some bp"
    and "\<forall>f \<in> set fibers. fiberRef f = k \<longrightarrow> aggregated f"
  shows "blueprintMap (outlineFibers fibers w) k =
           Some (bp\<lparr>count := count bp + length (filter (\<lambda>f. fiberRef f = k) fibers)\<rparr>)"
  using assms
proof (induction fibers arbitrary: w bp)
  case Nil
  then show ?case by (simp add: outlineFibers_def)
next
  case (Cons f fs)
  show ?case
  proof (cases "fiberRef f = k")
    case True
    with Cons.prems have "blueprintMap (outlineFiber f w) k = Some (bp\<lparr>count := count bp + 1\<rparr>)"
      using outlineFiber_present [of w f bp] by simp
    from Cons.IH [OF this] Cons.prems(2) True show ?thesis
      by (simp add: outlineFibers_def)
  next
    case False
    with Cons.prems have "blueprintMap (outlineFiber f w) k = Some bp"
      by (simp add: outlineFiber_other)
    from Cons.IH [OF this] Cons.prems(2) False show ?thesis
      by (simp add: outlineFibers_def)
  qed
qed

lemma outlineFibers_absent:
  assumes "blueprintMap w k = None"
    and "\<forall>f \<in> set fibers. fiberRef f \<noteq> k"
  shows "blueprintMap (outlineFibers fibers w) k = None"
  using assms
  by (induction fibers arbitrary: w) (simp_all add: outlineFibers_def outlineFiber_other)

lemma outlineFibers_append:
  "outlineFibers (fs @ gs) w = outlineFibers gs (outlineFibers fs w)"
  by (simp add: outlineFibers_def)

lemma outlineFibers_Cons:
  "outlineFibers (f # fs) w = outlineFibers fs (outlineFiber f w)"
  by (simp add: outlineFibers_def)

text \<open>
  C1 (as amended). Start from a window that holds no blueprint for the identity \<open>k\<close>, and
  let any sequence of render notifications arrive, of which \<open>N \<ge> 1\<close> are for \<open>k\<close> (all of
  them aggregated: composite and named); notifications for other identities may be
  interleaved. The blueprint of \<open>k\<close> then has \<open>count = N\<close>, and its \<open>didCommit\<close> is the flag
  of the first notification for \<open>k\<close> alone: later notifications only increment the count.
\<close>

theorem outlineFiber_count_first_didCommit:
  assumes "blueprintMap w k = None"
    and "\<forall>f \<in> set fibers. fiberRef f = k \<longrightarrow> aggregated f"
    and "filter (\<lambda>f. fiberRef f = k) fibers = first # later"
  shows "\<exists>bp. blueprintMap (outlineFibers fibers w) k = Some bp
           \<and> count bp = length (first # later)
           \<and> didCommit bp = (if didFiberCommit first then 1 else 0)"
proof -
  from assms(3) obtain pre post where
    split: "fibers = pre @ first # post" and pre: "\<forall>f \<in> set pre. fiberRef f \<noteq> k"
    and first: "fiberRef first = k" and post: "later = filter (\<lambda>f. fiberRef f = k) post"
    by (auto simp: filter_eq_Cons_iff)
  from assms(2) split first have agg: "aggregated first" by simp
  have none: "blueprintMap (outlineFibers pre w) k = None"
    using outlineFibers_absent [OF assms(1) pre] .
  let ?bp = "\<lparr>name = the (fiberName first), count = 1,
               elements = getNearestHostFibers first,
               didCommit = (if didFiberCommit first then 1 else 0)\<rparr>"
  have created: "blueprintMap (outlineFiber first (outlineFibers pre w)) k = Some ?bp"
    using outlineFiber_absent [of "outlineFibers pre w" first] none agg first by simp
  have rest: "\<forall>f \<in> set post. fiberRef f = k \<longrightarrow> aggregated f"
    using assms(2) split by simp
  have "blueprintMap (outlineFibers fibers w) k =
          Some (?bp\<lparr>count := count ?bp + length (filter (\<lambda>f. fiberRef f = k) post)\<rparr>)"
    unfolding split outlineFibers_append outlineFibers_Cons
    using outlineFibers_present [OF created rest] .
  with post show ?thesis by simp
qed

theorem outlineFiber_count_first_didCommit_witness:
  "\<exists>bp. blueprintMap (outlineFibers [renderUncommitted, renderCommitted] emptyWindow) 7 = Some bp
     \<and> count bp = 2 \<and> didCommit bp = 0"
  using outlineFiber_count_first_didCommit [of emptyWindow 7
      "[renderUncommitted, renderCommitted]" renderUncommitted "[renderCommitted]"]
  by (simp add: emptyWindow_def aggregated_def truthyName_def fiberName_def
      renderUncommitted_def renderCommitted_def numeral_2_eq_2)

text \<open>
  C1 as stated fails: two notifications for one identity, the first without a commit and
  the second with one, leave \<open>didCommit = 0\<close> although the OR of the two flags is 1.
  The count is 2, as stated.
\<close>

theorem outlineFiber_didCommit_not_or:
  "fiberRef renderUncommitted = 7 \<and> fiberRef renderCommitted = 7
   \<and> map_option (\<lambda>bp. (count bp, didCommit bp))
        (blueprintMap (outlineFibers [renderUncommitted, renderCommitted] emptyWindow) 7)
      = Some (2, 0)
   \<and> (if didFiberCommit renderUncommitted \<or> didFiberCommit renderCommitted then 1 else 0)
      = (1::nat)"
  by (simp add: outlineFibers_def outlineFiber_def emptyWindow_def truthyName_def
      fiberName_def setAdd_def renderUncommitted_def renderCommitted_def)

text \<open>
  C10. A notification for a fiber that is not composite, or whose name resolves to
  \<^verbatim>\<open>null\<close> or to the empty string, leaves the aggregation window exactly as it was: no
  blueprint is created and no count changes.
\<close>

theorem outlineFiber_skips:
  assumes "\<not> isCompositeFiber fiber \<or> fiberName fiber = None \<or> fiberName fiber = Some []"
  shows "outlineFiber fiber w = w"
  using assms by (auto simp: outlineFiber_def truthyName_def)

theorem outlineFiber_skips_witness:
  "outlineFiber \<lparr>fiberRef = 3, isCompositeFiber = False, typeString = Some ''div'',
       getDisplayName = Some ''div'', getNearestHostFibers = [Element 1],
       didFiberCommit = True\<rparr>
     (outlineFiber \<lparr>fiberRef = 3, isCompositeFiber = True, typeString = None,
       getDisplayName = Some ''App'', getNearestHostFibers = [Element 1],
       didFiberCommit = True\<rparr> emptyWindow)
   = outlineFiber \<lparr>fiberRef = 3, isCompositeFiber = True, typeString = None,
       getDisplayName = Some ''App'', getNearestHostFibers = [Element 1],
       didFiberCommit = True\<rparr> emptyWindow"
  using outlineFiber_skips [of "\<lparr>fiberRef = 3, isCompositeFiber = False,
       typeString = Some ''div'', getDisplayName = Some ''div'',
       getNearestHostFibers = [Element 1], didFiberCommit = True\<rparr>"]
  by simp

section \<open>Properties of \<^verbatim>\<open>mergeRects\<close>\<close>

lemma foldl_mergeStep_Some:
  "foldl (mergeStep fadd) \<lparr>minX = Some a, minY = Some b, maxX = Some c, maxY = Some d\<rparr> rs =
     \<lparr>minX = Some (fold min (map x rs) a),
      minY = Some (fold min (map y rs) b),
      maxX = Some (fold max (map (\<lambda>r. fadd (x r) (width r)) rs) c),
      maxY = Some (fold max (map (\<lambda>r. fadd (y r) (height r)) rs) d)\<rparr>"
  by (induction rs arbitrary: a b c d)
    (simp_all add: mergeStep_def min.commute max.commute)

lemma foldl_mergeStep_Cons:
  "foldl (mergeStep fadd) \<lparr>minX = None, minY = None, maxX = None, maxY = None\<rparr> (r # rs) =
     \<lparr>minX = Some (Min (x ` set (r # rs))),
      minY = Some (Min (y ` set (r # rs))),
      maxX = Some (Max ((\<lambda>r. fadd (x r) (width r)) ` set (r # rs))),
      maxY = Some (Max ((\<lambda>r. fadd (y r) (height r)) ` set (r # rs)))\<rparr>"
proof -
  have mn: "Min (g ` set (r # rs)) = fold min (map g rs) (g r)" for g :: "rect \<Rightarrow> real"
    using Min.set_eq_fold [of "g r" "map g rs"] by simp
  have mx: "Max (g ` set (r # rs)) = fold max (map g rs) (g r)" for g :: "rect \<Rightarrow> real"
    using Max.set_eq_fold [of "g r" "map g rs"] by simp
  show ?thesis
    unfolding mn mx by (simp add: mergeStep_def foldl_mergeStep_Some)
qed

lemma mergeRects_many:
  assumes "2 \<le> length rects"
  shows "mergeRects fadd fsub rects =
     Some \<lparr>x = Min (x ` set rects),
           y = Min (y ` set rects),
           width = fsub (Max ((\<lambda>r. fadd (x r) (width r)) ` set rects)) (Min (x ` set rects)),
           height = fsub (Max ((\<lambda>r. fadd (y r) (height r)) ` set rects)) (Min (y ` set rects))\<rparr>"
proof -
  from assms obtain r rs where rects: "rects = r # rs"
    by (cases rects) auto
  from assms have "length rects \<noteq> 1" by simp
  then show ?thesis
    unfolding rects mergeRects_def Let_def foldl_mergeStep_Cons by simp
qed

text \<open>
  C2. For every list of at least two rectangles, \<^verbatim>\<open>mergeRects\<close> returns the bounding box:
  its \<open>x\<close> is the least input \<open>x\<close>, its \<open>y\<close> the least input \<open>y\<close>, its width the greatest
  \<open>x + width\<close> minus the least \<open>x\<close>, and its height the greatest \<open>y + height\<close> minus the
  least \<open>y\<close>, where the sums and the differences are those of the program, computed in
  doubles (\<open>fadd\<close>, \<open>fsub\<close>). In particular the boxes \<open>{0,0,10,10}\<close> and \<open>{20,20,5,5}\<close>
  merge to \<open>{0,0,25,25}\<close>: the three operations that produce non-zero bounds there,
  \<open>0 + 10\<close>, \<open>20 + 5\<close> and \<open>25 - 0\<close>, are exact in doubles.
\<close>

theorem mergeRects_bounding_box:
  "(2 \<le> length rects \<longrightarrow>
      mergeRects fadd fsub rects =
        Some \<lparr>x = Min (x ` set rects),
              y = Min (y ` set rects),
              width = fsub (Max ((\<lambda>r. fadd (x r) (width r)) ` set rects))
                        (Min (x ` set rects)),
              height = fsub (Max ((\<lambda>r. fadd (y r) (height r)) ` set rects))
                         (Min (y ` set rects))\<rparr>)
   \<and> (fadd 0 10 = 10 \<and> fadd 20 5 = 25 \<and> fsub 25 0 = 25 \<longrightarrow>
        mergeRects fadd fsub [\<lparr>x = 0, y = 0, width = 10, height = 10\<rparr>,
                              \<lparr>x = 20, y = 20, width = 5, height = 5\<rparr>]
          = Some \<lparr>x = 0, y = 0, width = 25, height = 25\<rparr>)"
proof
  show "2 \<le> length rects \<longrightarrow>
      mergeRects fadd fsub rects =
        Some \<lparr>x = Min (x ` set rects),
              y = Min (y ` set rects),
              width = fsub (Max ((\<lambda>r. fadd (x r) (width r)) ` set rects))
                        (Min (x ` set rects)),
              height = fsub (Max ((\<lambda>r. fadd (y r) (height r)) ` set rects))
                         (Min (y ` set rects))\<rparr>"
    using mergeRects_many by blast
  show "fadd 0 10 = 10 \<and> fadd 20 5 = 25 \<and> fsub 25 0 = 25 \<longrightarrow>
        mergeRects fadd fsub [\<lparr>x = 0, y = 0, width = 10, height = 10\<rparr>,
                              \<lparr>x = 20, y = 20, width = 5, height = 5\<rparr>]
          = Some \<lparr>x = 0, y = 0, width = 25, height = 25\<rparr>"
    by (simp add: mergeRects_def mergeStep_def)
qed

text \<open>The witness takes three boxes with small integer coordinates, on which the sum and
  the difference of doubles are the exact ones.\<close>

theorem mergeRects_bounding_box_witness:
  "2 \<le> length [\<lparr>x = 4, y = 1, width = 2, height = 9\<rparr>,
               \<lparr>x = 1, y = 3, width = 2, height = 2\<rparr>,
               \<lparr>x = 2, y = 2, width = 7, height = 1\<rparr>]
   \<and> mergeRects (+) (-) [\<lparr>x = 4, y = 1, width = 2, height = 9\<rparr>,
                 \<lparr>x = 1, y = 3, width = 2, height = 2\<rparr>,
                 \<lparr>x = 2, y = 2, width = 7, height = 1\<rparr>]
       = Some \<lparr>x = 1, y = 1, width = 8, height = 9\<rparr>
   \<and> (0::real) + 10 = 10 \<and> (20::real) + 5 = 25 \<and> (25::real) - 0 = 25
   \<and> mergeRects (+) (-) [\<lparr>x = 0, y = 0, width = 10, height = 10\<rparr>,
                         \<lparr>x = 20, y = 20, width = 5, height = 5\<rparr>]
       = Some \<lparr>x = 0, y = 0, width = 25, height = 25\<rparr>"
  using mergeRects_bounding_box [of "[\<lparr>x = 4, y = 1, width = 2, height = 9\<rparr>,
               \<lparr>x = 1, y = 3, width = 2, height = 2\<rparr>,
               \<lparr>x = 2, y = 2, width = 7, height = 1\<rparr>]" "(+)" "(-)"]
  by simp

text \<open>
  C3. For every list of exactly one rectangle, \<^verbatim>\<open>mergeRects\<close> returns that rectangle
  unchanged.
\<close>

theorem mergeRects_single:
  "mergeRects fadd fsub [r] = Some r"
  by (simp add: mergeRects_def index_def)

section \<open>Properties of the visibility resolver\<close>


lemma setAdd_new: "a \<notin> set s \<Longrightarrow> setAdd a s = s @ [a]"
  by (simp add: setAdd_def)

lemma find_append_cases:
  "List.find P (as @ bs) = (case List.find P as of None \<Rightarrow> List.find P bs | Some a \<Rightarrow> Some a)"
  by (induction as) simp_all

lemma collectNew_spec:
  "\<exists>new. collectNew entries seen acc = (seen @ map target new, acc @ new)
     \<and> (distinct seen \<longrightarrow> distinct (seen @ map target new))
     \<and> set (map target new) = target ` set entries - set seen
     \<and> (\<forall>e \<in> set new. List.find (\<lambda>e'. target e' = target e) entries = Some e)"
proof (induction entries arbitrary: seen acc)
  case Nil
  show ?case by simp
next
  case (Cons e es)
  show ?case
  proof (cases "target e \<in> set seen")
    case True
    from Cons.IH [of seen acc] obtain new where
      n: "collectNew es seen acc = (seen @ map target new, acc @ new)"
      "distinct seen \<longrightarrow> distinct (seen @ map target new)"
      "set (map target new) = target ` set es - set seen"
      "\<forall>e \<in> set new. List.find (\<lambda>e'. target e' = target e) es = Some e" by blast
    from n(3) True have "\<forall>e' \<in> set new. target e \<noteq> target e'" by auto
    with n True show ?thesis by (intro exI [of _ new]) auto
  next
    case False
    from Cons.IH [of "seen @ [target e]" "acc @ [e]"] obtain new where
      n: "collectNew es (seen @ [target e]) (acc @ [e]) = ((seen @ [target e]) @ map target new, (acc @ [e]) @ new)"
      "distinct (seen @ [target e]) \<longrightarrow> distinct ((seen @ [target e]) @ map target new)"
      "set (map target new) = target ` set es - set (seen @ [target e])"
      "\<forall>e \<in> set new. List.find (\<lambda>e'. target e' = target e) es = Some e" by blast
    from n(3) have "\<forall>e' \<in> set new. target e \<noteq> target e'" by auto
    with n False show ?thesis
      by (intro exI [of _ "e # new"]) (auto simp: setAdd_new)
  qed
qed

lemma startPass_inv: "passInv (newSet elems) (startPass elems)"
  by (simp add: passInv_def startPass_def awaitNext_def)

lemma hostCallback_idle: "\<not> observing p \<Longrightarrow> hostCallback p entries = p"
  by (simp add: hostCallback_def)

lemma hostCallback_observing:
  assumes "passInv U p" and "observing p"
  shows "\<exists>new. seenElements (state (hostCallback p entries)) = seenElements (state p) @ map target new
      \<and> yielded (hostCallback p entries) = yielded p @ (if new = [] then [] else [new])
      \<and> set (map target new) = target ` set entries - set (seenElements (state p))
      \<and> (\<forall>e \<in> set new. List.find (\<lambda>e'. target e' = target e) entries = Some e)
      \<and> observing (hostCallback p entries)
          = (length (seenElements (state p) @ map target new) \<noteq> length U)
      \<and> passInv U (hostCallback p entries)"
proof -
  from collectNew_spec [of entries "seenElements (state p)" "[]"] obtain new where
    n: "collectNew entries (seenElements (state p)) [] = (seenElements (state p) @ map target new, new)"
      "distinct (seenElements (state p)) \<longrightarrow> distinct (seenElements (state p) @ map target new)"
      "set (map target new) = target ` set entries - set (seenElements (state p))"
      "\<forall>e \<in> set new. List.find (\<lambda>e'. target e' = target e) entries = Some e"
    by auto
  from assms n(1,2) have
    "seenElements (state (hostCallback p entries)) = seenElements (state p) @ map target new
      \<and> yielded (hostCallback p entries) = yielded p @ (if new = [] then [] else [new])
      \<and> observing (hostCallback p entries)
          = (length (seenElements (state p) @ map target new) \<noteq> length U)
      \<and> passInv U (hostCallback p entries)"
    by (cases "new = []")
      (auto simp: passInv_def hostCallback_def onIntersect_def resume_def awaitNext_def Let_def)
  with n(3,4) show ?thesis by blast
qed


lemma foldl_setAdd:
  "set (foldl (\<lambda>s a. setAdd a s) s0 as) = set s0 \<union> set as
   \<and> (distinct s0 \<longrightarrow> distinct (foldl (\<lambda>s a. setAdd a s) s0 as))"
  by (induction as arbitrary: s0) (auto simp: setAdd_def)

lemma set_newSet: "set (newSet as) = set as"
  by (simp add: newSet_def foldl_setAdd)

lemma distinct_newSet: "distinct (newSet as)"
  by (simp add: newSet_def foldl_setAdd)

lemma getBatchedRectMap_snoc:
  "getBatchedRectMap elems (cbs @ [cb]) = hostCallback (getBatchedRectMap elems cbs) cb"
  by (simp add: getBatchedRectMap_def)

lemma getBatchedRectMap_inv:
  "passInv (newSet elems) (getBatchedRectMap elems cbs)
   \<and> set (seenElements (state (getBatchedRectMap elems cbs))) \<subseteq> target ` set (concat cbs)
   \<and> (observing (getBatchedRectMap elems cbs) \<longrightarrow>
        set (seenElements (state (getBatchedRectMap elems cbs))) = target ` set (concat cbs))
   \<and> (\<forall>e \<in> set (concat (yielded (getBatchedRectMap elems cbs))).
        List.find (\<lambda>e'. target e' = target e) (concat cbs) = Some e)
   \<and> (observing (getBatchedRectMap elems cbs) \<and> cbs \<noteq> [] \<longrightarrow>
        length (seenElements (state (getBatchedRectMap elems cbs))) \<noteq> length (newSet elems))"
proof (induction cbs rule: rev_induct)
  case Nil
  show ?case
    using startPass_inv [of elems]
    by (simp add: getBatchedRectMap_def startPass_def awaitNext_def)
next
  case (snoc cb cbs)
  let ?p = "getBatchedRectMap elems cbs"
  let ?q = "hostCallback ?p cb"
  show ?case
  proof (cases "observing ?p")
    case False
    then have q: "?q = ?p" by (rule hostCallback_idle)
    from snoc have inv: "passInv (newSet elems) ?p" by blast
    from snoc have s0: "set (seenElements (state ?p)) \<subseteq> target ` set (concat cbs)"
      by blast
    have "target ` set (concat cbs) \<subseteq> target ` set (concat (cbs @ [cb]))"
      by (intro image_mono) simp
    with s0 have sub: "set (seenElements (state ?p)) \<subseteq> target ` set (concat (cbs @ [cb]))"
      by (rule subset_trans)
    from snoc have old: "\<forall>e \<in> set (concat (yielded ?p)).
        List.find (\<lambda>e'. target e' = target e) (concat cbs) = Some e" by blast
    have first: "\<forall>e \<in> set (concat (yielded ?p)).
        List.find (\<lambda>e'. target e' = target e) (concat (cbs @ [cb])) = Some e"
    proof
      fix e assume "e \<in> set (concat (yielded ?p))"
      with old have "List.find (\<lambda>e'. target e' = target e) (concat cbs) = Some e" by blast
      then show "List.find (\<lambda>e'. target e' = target e) (concat (cbs @ [cb])) = Some e"
        by (simp add: find_append_cases)
    qed
    from inv sub first False show ?thesis
      unfolding getBatchedRectMap_snoc q by blast
  next
    case True
    from snoc have inv: "passInv (newSet elems) ?p" by blast
    from snoc True have seen: "set (seenElements (state ?p)) = target ` set (concat cbs)" by blast
    from snoc have old: "\<forall>e \<in> set (concat (yielded ?p)).
        List.find (\<lambda>e'. target e' = target e) (concat cbs) = Some e" by blast
    from hostCallback_observing [OF inv True, of cb] obtain new where
      n: "seenElements (state ?q) = seenElements (state ?p) @ map target new"
        "yielded ?q = yielded ?p @ (if new = [] then [] else [new])"
        "set (map target new) = target ` set cb - set (seenElements (state ?p))"
        "\<forall>e \<in> set new. List.find (\<lambda>e'. target e' = target e) cb = Some e"
        "observing ?q = (length (seenElements (state ?p) @ map target new) \<noteq> length (newSet elems))"
        "passInv (newSet elems) ?q"
      by blast
    have set_q: "set (seenElements (state ?q)) = target ` set (concat (cbs @ [cb]))"
      using n(1,3) seen by auto
    have fresh: "List.find (\<lambda>e'. target e' = target e) (concat cbs) = None" if "e \<in> set new" for e
    proof -
      from that n(3) have "target e \<notin> set (seenElements (state ?p))" by auto
      with seen have "target e \<notin> target ` set (concat cbs)" by simp
      then show ?thesis unfolding find_None_iff by (metis imageI)
    qed
    have first: "\<forall>e \<in> set (concat (yielded ?q)).
        List.find (\<lambda>e'. target e' = target e) (concat (cbs @ [cb])) = Some e"
      using old n(2,4) fresh by (auto simp: find_append_cases)
    from n(5) n(1) have len: "observing ?q \<longrightarrow>
        length (seenElements (state ?q)) \<noteq> length (newSet elems)" by simp
    from n(6) set_q first len show ?thesis
      unfolding getBatchedRectMap_snoc by blast
  qed
qed

lemma getBatchedRectMap_distinct:
  "distinct (map target (concat (yielded (getBatchedRectMap elems cbs))))"
  using getBatchedRectMap_inv [of elems cbs] by (simp add: passInv_def)

lemma getBatchedRectMap_completes:
  assumes "elems \<noteq> []" and "target ` set (concat cbs) = set elems"
  shows "\<not> observing (getBatchedRectMap elems cbs)"
proof
  let ?p = "getBatchedRectMap elems cbs"
  assume obs: "observing ?p"
  from getBatchedRectMap_inv [of elems cbs] obs have
    inv: "passInv (newSet elems) ?p"
    and seen: "set (seenElements (state ?p)) = target ` set (concat cbs)"
    and len: "cbs \<noteq> [] \<longrightarrow> length (seenElements (state ?p)) \<noteq> length (newSet elems)"
    by blast+
  from assms have "cbs \<noteq> []" by auto
  with len have neq: "length (seenElements (state ?p)) \<noteq> length (newSet elems)" by simp
  from inv have "distinct (seenElements (state ?p))" by (simp add: passInv_def)
  moreover from seen assms(2) have "set (seenElements (state ?p)) = set (newSet elems)"
    by (simp add: set_newSet)
  ultimately have "length (seenElements (state ?p)) = length (newSet elems)"
    using distinct_newSet [of elems] by (metis distinct_card)
  with neq show False by simp
qed

section \<open>Properties of the frame flusher\<close>

lemma mergeRects_nonempty:
  assumes "rects \<noteq> []"
  shows "\<exists>r. mergeRects fadd fsub rects = Some r"
proof (cases "length rects = 1")
  case True
  then show ?thesis by (simp add: mergeRects_def index_def)
next
  case False
  with assms have "2 \<le> length rects"
    by (cases rects) (auto simp: Suc_le_eq)
  then show ?thesis using mergeRects_many by blast
qed

lemma resolvedRects_set:
  "set (resolvedRects m els) = {r. \<exists>e \<in> set els. m e = Some r}"
  by (induction els) (auto split: option.splits)

lemma resolvedRects_empty:
  "resolvedRects m els = [] \<longleftrightarrow> (\<forall>e \<in> set els. m e = None)"
  by (induction els) (auto split: option.splits)

lemma blueprintLoop_sound:
  "(bp, rects, fid) \<in> set (blueprintLoop g m bm keys) \<Longrightarrow>
     \<exists>fiber \<in> set keys. bm fiber = Some bp \<and> rects = resolvedRects m (elements bp)
        \<and> rects \<noteq> [] \<and> fid = g fiber"
  by (induction keys) (auto simp: Let_def split: option.splits if_splits)

lemma blueprintLoop_complete:
  "fiber \<in> set keys \<Longrightarrow> bm fiber = Some bp \<Longrightarrow> resolvedRects m (elements bp) \<noteq> [] \<Longrightarrow>
     (bp, resolvedRects m (elements bp), g fiber) \<in> set (blueprintLoop g m bm keys)"
  by (induction keys) (auto simp: Let_def split: option.splits if_splits)

lemma blueprintLoop_blueprints:
  "map fst (blueprintLoop g m bm keys) =
     filter (\<lambda>bp. \<exists>e \<in> set (elements bp). m e \<noteq> None) (List.map_filter bm keys)"
  by (induction keys)
    (auto simp: Let_def List.map_filter_simps resolvedRects_empty split: option.splits)

lemma outlineRecords_blueprints:
  "map fst (outlineRecords fadd fsub g m w) =
     filter (\<lambda>bp. \<exists>e \<in> set (elements bp). m e \<noteq> None)
       (List.map_filter (blueprintMap w) (blueprintMapKeys w))"
  unfolding outlineRecords_def
  using blueprintLoop_blueprints [of g m "blueprintMap w" "blueprintMapKeys w"]
  by (simp add: case_prod_beta comp_def)

lemma outlineRecords_merged:
  assumes "(bp, ro, fid) \<in> set (outlineRecords fadd fsub g m w)"
  shows "\<exists>r. ro = Some r \<and> mergeRects fadd fsub (resolvedRects m (elements bp)) = Some r
           \<and> resolvedRects m (elements bp) \<noteq> []
           \<and> (\<exists>fiber \<in> set (blueprintMapKeys w). blueprintMap w fiber = Some bp \<and> fid = g fiber)"
proof -
  from assms obtain rects where
    mem: "(bp, rects, fid) \<in> set (blueprintLoop g m (blueprintMap w) (blueprintMapKeys w))"
    and ro: "ro = mergeRects fadd fsub rects"
    by (auto simp: outlineRecords_def)
  from blueprintLoop_sound [OF mem] obtain fiber where
    f: "fiber \<in> set (blueprintMapKeys w)" "blueprintMap w fiber = Some bp"
      "rects = resolvedRects m (elements bp)" "rects \<noteq> []" "fid = g fiber"
    by blast
  from mergeRects_nonempty [OF f(4)] obtain r where "mergeRects fadd fsub rects = Some r" by blast
  with ro f show ?thesis by blast
qed

lemma fill_defined:
  assumes "\<forall>(bp, ro, fid) \<in> set records. ro \<noteq> None"
  shows "\<exists>s'. fill fround wk len i records s = Inr s'"
  using assms
proof (induction records arbitrary: i s)
  case Nil
  show ?case by simp
next
  case (Cons rec records)
  obtain bp ro fid where rec: "rec = (bp, ro, fid)" by (cases rec)
  with Cons.prems obtain r where ro: "ro = Some r" by auto
  from Cons.prems have "\<forall>(bp, ro, fid) \<in> set records. ro \<noteq> None" by simp
  from Cons.IH [OF this] show ?case unfolding rec ro by simp
qed

lemma dispatch_defined:
  assumes "\<forall>(bp, ro, fid) \<in> set records. ro \<noteq> None"
  shows "\<exists>effects rend'. dispatch fround rend records = Inr (effects, rend')
           \<and> worker rend' = worker rend \<and> canvas rend' = canvas rend \<and> ctx rend' = ctx rend"
proof (cases "records = []")
  case True
  then show ?thesis by (simp add: dispatch_def)
next
  case False
  from fill_defined [OF assms] obtain s' where
    "fill fround (worker rend) (length records) 0 records
       \<lparr>sharedView = replicate (length records * OUTLINE_ARRAY_SIZE * 4 div 4) 0,
        blueprintNames = replicate (length records) None,
        outlineData = None\<rparr> = Inr s'"
    by blast
  with False show ?thesis by (simp add: dispatch_def Let_def)
qed

lemma outlineRecords_Some:
  "\<forall>(bp, ro, fid) \<in> set (outlineRecords fadd fsub g m w). ro \<noteq> None"
  using outlineRecords_merged by fastforce

lemma flushBatch_defined:
  "\<exists>effects rend'. flushBatch fround fadd fsub g (m, rend) step
       = Inr (effects, accumulate m (fst step), rend')
     \<and> dispatch fround rend (outlineRecords fadd fsub g (accumulate m (fst step)) (snd step))
       = Inr (effects, rend')
     \<and> worker rend' = worker rend \<and> canvas rend' = canvas rend \<and> ctx rend' = ctx rend"
proof -
  from dispatch_defined [OF outlineRecords_Some,
      of fround rend fadd fsub g "accumulate m (fst step)" "snd step"]
  obtain effects rend' where
    "dispatch fround rend (outlineRecords fadd fsub g (accumulate m (fst step)) (snd step)) = Inr (effects, rend')"
    "worker rend' = worker rend" "canvas rend' = canvas rend" "ctx rend' = ctx rend"
    by blast
  then show ?thesis by (simp add: flushBatch_def Let_def)
qed


lemma flushLoop_trace:
  "\<exists>out rend'. flushLoop fround fadd fsub g (m, rend) steps
        = Inr (out, foldl accumulate m (map fst steps), rend')
     \<and> length out = length steps
     \<and> worker rend' = worker rend \<and> canvas rend' = canvas rend \<and> ctx rend' = ctx rend
     \<and> (\<forall>k < length steps. \<exists>rk rk'.
           dispatch fround rk
             (outlineRecords fadd fsub g (foldl accumulate m (map fst (take (Suc k) steps)))
                (snd (steps ! k))) = Inr (out ! k, rk')
           \<and> worker rk = worker rend \<and> canvas rk = canvas rend \<and> ctx rk = ctx rend)"
proof (induction steps arbitrary: m rend)
  case Nil
  show ?case by simp
next
  case (Cons step steps)
  from flushBatch_defined [of fround fadd fsub g m rend step] obtain effects rend1 where
    b: "flushBatch fround fadd fsub g (m, rend) step = Inr (effects, accumulate m (fst step), rend1)"
      "dispatch fround rend (outlineRecords fadd fsub g (accumulate m (fst step)) (snd step))
         = Inr (effects, rend1)"
      "worker rend1 = worker rend" "canvas rend1 = canvas rend" "ctx rend1 = ctx rend"
    by blast
  let ?m1 = "accumulate m (fst step)"
  from Cons.IH [of ?m1 rend1] obtain out rend' where
    r: "flushLoop fround fadd fsub g (?m1, rend1) steps = Inr (out, foldl accumulate ?m1 (map fst steps), rend')"
      "length out = length steps"
      "worker rend' = worker rend1" "canvas rend' = canvas rend1" "ctx rend' = ctx rend1"
      "\<forall>k < length steps. \<exists>rk rk'.
           dispatch fround rk
             (outlineRecords fadd fsub g (foldl accumulate ?m1 (map fst (take (Suc k) steps)))
                (snd (steps ! k))) = Inr (out ! k, rk')
           \<and> worker rk = worker rend1 \<and> canvas rk = canvas rend1 \<and> ctx rk = ctx rend1"
    by blast
  have run: "flushLoop fround fadd fsub g (m, rend) (step # steps)
      = Inr (effects # out, foldl accumulate m (map fst (step # steps)), rend')"
    using b(1) r(1) by simp
  have each: "\<exists>rk rk'.
           dispatch fround rk
             (outlineRecords fadd fsub g (foldl accumulate m (map fst (take (Suc k) (step # steps))))
                (snd ((step # steps) ! k))) = Inr ((effects # out) ! k, rk')
           \<and> worker rk = worker rend \<and> canvas rk = canvas rend \<and> ctx rk = ctx rend"
    if "k < length (step # steps)" for k
  proof (cases k)
    case 0
    with b(2) show ?thesis by auto
  next
    case (Suc j)
    with that have "j < length steps" by simp
    with r(6) obtain rk rk' where
      "dispatch fround rk
             (outlineRecords fadd fsub g (foldl accumulate ?m1 (map fst (take (Suc j) steps)))
                (snd (steps ! j))) = Inr (out ! j, rk')"
      "worker rk = worker rend1" "canvas rk = canvas rend1" "ctx rk = ctx rend1"
      by blast
    with Suc b(3,4,5) show ?thesis by auto
  qed
  from run r(2,3,4,5) b(3,4,5) each show ?case
    by (intro exI [of _ "effects # out"] exI [of _ rend']) simp
qed

lemma storeEntry_Some:
  "storeEntry m entry e = Some r \<Longrightarrow>
     m e = Some r \<or> (target entry = e \<and> intersectionRect entry = r \<and> isIntersecting entry
        \<and> width r \<noteq> 0 \<and> height r \<noteq> 0)"
  by (auto simp: storeEntry_def split: if_splits)

lemma accumulate_Some:
  "accumulate m entries e = Some r \<Longrightarrow>
     m e = Some r \<or> (\<exists>entry \<in> set entries. target entry = e \<and> intersectionRect entry = r
        \<and> isIntersecting entry \<and> width r \<noteq> 0 \<and> height r \<noteq> 0)"
proof (induction entries arbitrary: m)
  case Nil
  then show ?case by (simp add: accumulate_def)
next
  case (Cons entry entries)
  from Cons.prems have "accumulate (storeEntry m entry) entries e = Some r"
    by (simp add: accumulate_def)
  from Cons.IH [OF this] storeEntry_Some [of m entry e r] show ?case by auto
qed

lemma foldl_accumulate_concat:
  "foldl accumulate m batches = accumulate m (concat batches)"
  by (induction batches arbitrary: m) (simp_all add: accumulate_def)

lemma fill_worker:
  assumes "\<forall>(bp, ro, fid) \<in> set records. ro \<noteq> None"
    and "(i + length records) * OUTLINE_ARRAY_SIZE \<le> length (sharedView s)"
    and "i + length records \<le> length (blueprintNames s)"
  shows "\<exists>s'. fill fround True len i records s = Inr s'
      \<and> length (sharedView s') = length (sharedView s)
      \<and> length (blueprintNames s') = length (blueprintNames s)
      \<and> (\<forall>n < i * OUTLINE_ARRAY_SIZE. sharedView s' ! n = sharedView s ! n)
      \<and> (\<forall>n < i. blueprintNames s' ! n = blueprintNames s ! n)
      \<and> (\<forall>j < length records.
            recordAt fround (sharedView s') (blueprintNames s') (i + j) (records ! j))"
  using assms
proof (induction records arbitrary: i s)
  case Nil
  show ?case by simp
next
  case (Cons rec records)
  obtain bp ro fid where rec: "rec = (bp, ro, fid)" by (cases rec)
  with Cons.prems(1) obtain r where ro: "ro = Some r" by auto
  define s1 where "s1 =
    s\<lparr>sharedView := (sharedView s)
                [i * OUTLINE_ARRAY_SIZE := fround (real fid),
                 i * OUTLINE_ARRAY_SIZE + 1 := fround (real (count bp)),
                 i * OUTLINE_ARRAY_SIZE + 2 := fround (x r),
                 i * OUTLINE_ARRAY_SIZE + 3 := fround (y r),
                 i * OUTLINE_ARRAY_SIZE + 4 := fround (width r),
                 i * OUTLINE_ARRAY_SIZE + 5 := fround (height r),
                 i * OUTLINE_ARRAY_SIZE + 6 := fround (real (didCommit bp))],
       blueprintNames := (blueprintNames s)[i := Some (name bp)]\<rparr>"
  have step: "fill fround True len i (rec # records) s = fill fround True len (Suc i) records s1"
    by (simp add: rec ro s1_def Let_def)
  have len1: "length (sharedView s1) = length (sharedView s)"
    "length (blueprintNames s1) = length (blueprintNames s)"
    by (simp_all add: s1_def)
  from Cons.prems have room: "i * OUTLINE_ARRAY_SIZE + 6 < length (sharedView s)"
    "i < length (blueprintNames s)"
    by (simp_all add: OUTLINE_ARRAY_SIZE_def)
  have here: "recordAt fround (sharedView s1) (blueprintNames s1) i rec"
    using room by (simp add: recordAt_def rec ro s1_def)
  have below: "\<forall>n < i * OUTLINE_ARRAY_SIZE. sharedView s1 ! n = sharedView s ! n"
    "\<forall>n < i. blueprintNames s1 ! n = blueprintNames s ! n"
    by (simp_all add: s1_def)
  from Cons.prems have p: "\<forall>(bp, ro, fid) \<in> set records. ro \<noteq> None"
    "(Suc i + length records) * OUTLINE_ARRAY_SIZE \<le> length (sharedView s1)"
    "Suc i + length records \<le> length (blueprintNames s1)"
    by (simp_all add: len1)
  from Cons.IH [OF p] obtain s' where
    r: "fill fround True len (Suc i) records s1 = Inr s'"
      "length (sharedView s') = length (sharedView s1)"
      "length (blueprintNames s') = length (blueprintNames s1)"
      "\<forall>n < Suc i * OUTLINE_ARRAY_SIZE. sharedView s' ! n = sharedView s1 ! n"
      "\<forall>n < Suc i. blueprintNames s' ! n = blueprintNames s1 ! n"
      "\<forall>j < length records.
            recordAt fround (sharedView s') (blueprintNames s') (Suc i + j) (records ! j)"
    by blast
  have kept: "recordAt fround (sharedView s') (blueprintNames s') i rec"
    using here r(4,5) by (simp add: recordAt_def rec OUTLINE_ARRAY_SIZE_def)
  have all: "recordAt fround (sharedView s') (blueprintNames s') (i + j) ((rec # records) ! j)"
    if "j < length (rec # records)" for j
  proof (cases j)
    case 0
    with kept show ?thesis by simp
  next
    case (Suc k)
    with that r(6) show ?thesis by simp
  qed
  from r(4) below(1) have b1: "\<forall>n < i * OUTLINE_ARRAY_SIZE. sharedView s' ! n = sharedView s ! n"
    by (simp add: OUTLINE_ARRAY_SIZE_def)
  from r(5) below(2) have b2: "\<forall>n < i. blueprintNames s' ! n = blueprintNames s ! n"
    by simp
  from step r(1,2,3) len1 b1 b2 all show ?case by auto
qed

section \<open>Evaluation of the example inputs\<close>

lemmas example_defs = fiberA_def fiberB_def exampleWindow_def entryA_def entryAoff_def
  entryB1_def entryB2_def

lemma exampleWindow_keys: "blueprintMapKeys exampleWindow = [11, 12]"
  by (simp add: example_defs outlineFibers_def outlineFiber_def emptyWindow_def
      truthyName_def fiberName_def setAdd_def)

lemma exampleWindow_map:
  "blueprintMap exampleWindow 11 =
     Some \<lparr>name = ''A'', count = 1, elements = [Element 10], didCommit = 1\<rparr>"
  "blueprintMap exampleWindow 12 =
     Some \<lparr>name = ''B'', count = 2, elements = [Element 20, Element 21], didCommit = 0\<rparr>"
  by (simp_all add: example_defs outlineFibers_def outlineFiber_def emptyWindow_def
      truthyName_def fiberName_def setAdd_def)

lemma example_elements:
  "collectElements (blueprintMap exampleWindow) (blueprintMapKeys exampleWindow)
     = [Element 10, Element 20, Element 21]"
  by (simp add: exampleWindow_keys exampleWindow_map)

lemma example_pass:
  "yielded (getBatchedRectMap [Element 10, Element 20, Element 21]
      [[entryA, entryB1], [entryAoff, entryB2]]) = [[entryA, entryB1], [entryB2]]"
  "returned (getBatchedRectMap [Element 10, Element 20, Element 21]
      [[entryA, entryB1], [entryAoff, entryB2]])"
  by (simp_all add: getBatchedRectMap_def startPass_def awaitNext_def hostCallback_def
      onIntersect_def resume_def newSet_def setAdd_def Let_def
      entryA_def entryAoff_def entryB1_def entryB2_def)

lemma example_records1:
  "outlineRecords fadd fsub id (accumulate Map.empty [entryA, entryB1]) exampleWindow =
     [(\<lparr>name = ''A'', count = 1, elements = [Element 10], didCommit = 1\<rparr>,
        Some \<lparr>x = 0, y = 0, width = 10, height = 10\<rparr>, 11),
      (\<lparr>name = ''B'', count = 2, elements = [Element 20, Element 21], didCommit = 0\<rparr>,
        Some \<lparr>x = 20, y = 20, width = 5, height = 5\<rparr>, 12)]"
  by (simp add: outlineRecords_def exampleWindow_keys exampleWindow_map accumulate_def
      storeEntry_def entryA_def entryB1_def mergeRects_def index_def)


lemma example_records2:
  "outlineRecords fadd fsub id (accumulate (accumulate Map.empty [entryA, entryB1]) [entryB2]) exampleWindow =
     [(\<lparr>name = ''A'', count = 1, elements = [Element 10], didCommit = 1\<rparr>,
        Some \<lparr>x = 0, y = 0, width = 10, height = 10\<rparr>, 11),
      (\<lparr>name = ''B'', count = 2, elements = [Element 20, Element 21], didCommit = 0\<rparr>,
        Some \<lparr>x = 20, y = 20, width = 5, height = 5\<rparr>, 12)]"
  by (simp add: outlineRecords_def exampleWindow_keys exampleWindow_map accumulate_def
      storeEntry_def entryA_def entryB1_def entryB2_def mergeRects_def index_def)

lemma example_dispatch_inProcess:
  "dispatch fround inProcess
     [(\<lparr>name = ''A'', count = 1, elements = [Element 10], didCommit = 1\<rparr>,
        Some \<lparr>x = 0, y = 0, width = 10, height = 10\<rparr>, 11),
      (\<lparr>name = ''B'', count = 2, elements = [Element 20, Element 21], didCommit = 0\<rparr>,
        Some \<lparr>x = 20, y = 20, width = 5, height = 5\<rparr>, 12)]
   = Inr ([UpdateOutlines
              [Some \<lparr>oid = 11, oname = ''A'', ocount = 1, ox = 0, oy = 0, owidth = 10,
                      oheight = 10, odidCommit = 1\<rparr>,
               Some \<lparr>oid = 12, oname = ''B'', ocount = 2, ox = 20, oy = 20, owidth = 5,
                      oheight = 5, odidCommit = 0\<rparr>], RequestAnimationFrame],
             inProcess\<lparr>animationFrameId := True\<rparr>)"
  by (simp add: dispatch_def inProcess_def Let_def)


section \<open>The flush cycle: merging, transport and dispatch per batch\<close>

lemma flushLoop_defined:
  "\<exists>out m' rend'. flushLoop fround fadd fsub g st steps = Inr (out, m', rend')"
proof -
  obtain m rend where st: "st = (m, rend)" by (cases st)
  from flushLoop_trace [of fround fadd fsub g m rend steps] show ?thesis
    unfolding st by blast
qed

lemma flushOutlines_defined:
  "\<exists>res. flushOutlines fround fadd fsub g rend w callbacks = Inr res"
proof -
  let ?steps = "map (\<lambda>entries. (entries, w))
           (yielded (getBatchedRectMap
              (collectElements (blueprintMap w) (blueprintMapKeys w)) callbacks))"
  from flushLoop_defined [of fround fadd fsub g "(Map.empty, rend)" ?steps] obtain out m' rend' where
    "flushLoop fround fadd fsub g (Map.empty, rend) ?steps = Inr (out, m', rend')" by blast
  then show ?thesis by (simp add: flushOutlines_def Let_def)
qed

text \<open>
  C4. In every batch of a flush cycle, each list that the loop over the blueprints passes
  to \<^verbatim>\<open>mergeRects\<close> is non-empty (a blueprint with no resolved rectangle is skipped
  before merging), so \<^verbatim>\<open>mergeRects\<close> returns a rectangle there; consequently neither the
  batch loop nor a whole cycle ever fails on an \<^verbatim>\<open>undefined\<close> rectangle.
\<close>

theorem mergeRects_never_on_empty:
  "(\<forall>(bp, rects, fid) \<in> set (blueprintLoop g m (blueprintMap w) (blueprintMapKeys w)).
       rects \<noteq> [] \<and> (\<exists>r. mergeRects fadd fsub rects = Some r))
   \<and> (\<exists>res. flushLoop fround fadd fsub g st steps = Inr res)
   \<and> (\<exists>res. flushOutlines fround fadd fsub g rend w callbacks = Inr res)"
proof (intro conjI)
  show "\<forall>(bp, rects, fid) \<in> set (blueprintLoop g m (blueprintMap w) (blueprintMapKeys w)).
       rects \<noteq> [] \<and> (\<exists>r. mergeRects fadd fsub rects = Some r)"
  proof (clarify, rule conjI)
    fix bp rects fid
    assume "(bp, rects, fid) \<in> set (blueprintLoop g m (blueprintMap w) (blueprintMapKeys w))"
    from blueprintLoop_sound [OF this] have ne: "rects \<noteq> []" by blast
    then show "rects \<noteq> []" .
    from mergeRects_nonempty [OF ne] show "\<exists>r. mergeRects fadd fsub rects = Some r" .
  qed
  show "\<exists>res. flushLoop fround fadd fsub g st steps = Inr res"
    using flushLoop_defined [of fround fadd fsub g st steps] by blast
  show "\<exists>res. flushOutlines fround fadd fsub g rend w callbacks = Inr res"
    by (rule flushOutlines_defined)
qed

theorem mergeRects_never_on_empty_witness:
  "(\<lparr>name = ''A'', count = 1, elements = [Element 10], didCommit = 1\<rparr>,
      [\<lparr>x = 0, y = 0, width = 10, height = 10\<rparr>], 11)
     \<in> set (blueprintLoop id (accumulate Map.empty [entryA, entryB2])
              (blueprintMap exampleWindow) (blueprintMapKeys exampleWindow))
   \<and> (\<exists>r. mergeRects (+) (-) [\<lparr>x = 0, y = 0, width = 10, height = 10\<rparr>] = Some r)
   \<and> (\<exists>res. flushOutlines id (+) (-) id inProcess exampleWindow [[entryA, entryB2]] = Inr res)"
proof -
  have mem: "(\<lparr>name = ''A'', count = 1, elements = [Element 10], didCommit = 1\<rparr>,
      [\<lparr>x = 0, y = 0, width = 10, height = 10\<rparr>], 11)
     \<in> set (blueprintLoop id (accumulate Map.empty [entryA, entryB2])
              (blueprintMap exampleWindow) (blueprintMapKeys exampleWindow))"
    by (simp add: exampleWindow_keys exampleWindow_map accumulate_def
        storeEntry_def entryA_def entryB2_def)
  from mergeRects_never_on_empty [where fadd = "(+)" and fsub = "(-)" and g = id
      and m = "accumulate Map.empty [entryA, entryB2]" and w = exampleWindow and fround = id and rend = inProcess
      and callbacks = "[[entryA, entryB2]]"]
  have all: "\<forall>(bp, rects, fid) \<in> set (blueprintLoop id (accumulate Map.empty [entryA, entryB2])
              (blueprintMap exampleWindow) (blueprintMapKeys exampleWindow)).
       rects \<noteq> [] \<and> (\<exists>r. mergeRects (+) (-) rects = Some r)"
    and run: "\<exists>res. flushOutlines id (+) (-) id inProcess exampleWindow [[entryA, entryB2]] = Inr res"
    by blast+
  from all mem have "\<exists>r. mergeRects (+) (-) [\<lparr>x = 0, y = 0, width = 10, height = 10\<rparr>] = Some r"
    by blast
  with mem run show ?thesis by blast
qed

text \<open>
  C6. When the worker variant is active, a dispatch of \<open>n \<ge> 1\<close> records posts exactly one
  message, of type \<^verbatim>\<open>draw-outlines\<close>, whose buffer has \<open>n * 7 * 4\<close> bytes, that is
  \<open>n * 7\<close> 32-bit float slots; record \<open>i\<close> occupies the slots \<open>i * 7\<close> to \<open>i * 7 + 6\<close> in the
  order id, count, x, y, width, height, didCommit (each stored through the rounding of a
  \<^verbatim>\<open>Float32Array\<close>), and \<open>names[i]\<close> is the name of record \<open>i\<close>.
\<close>

theorem dispatch_worker_buffer:
  assumes "worker rend"
    and "outlineRecords fadd fsub g m w = records"
    and "records \<noteq> []"
  shows "\<exists>view names.
      dispatch fround rend records =
        Inr ([PostMessage ''draw-outlines''
                \<lparr>byteLength = length records * 7 * 4, float32 = view\<rparr> names], rend)
    \<and> length view = length records * 7
    \<and> length names = length records
    \<and> (\<forall>i < length records. \<exists>bp r fid. records ! i = (bp, Some r, fid)
          \<and> view ! (i * 7) = fround (real fid)
          \<and> view ! (i * 7 + 1) = fround (real (count bp))
          \<and> view ! (i * 7 + 2) = fround (x r)
          \<and> view ! (i * 7 + 3) = fround (y r)
          \<and> view ! (i * 7 + 4) = fround (width r)
          \<and> view ! (i * 7 + 5) = fround (height r)
          \<and> view ! (i * 7 + 6) = fround (real (didCommit bp))
          \<and> names ! i = Some (name bp))"
proof -
  let ?n = "length records"
  let ?s0 = "\<lparr>sharedView = replicate (?n * OUTLINE_ARRAY_SIZE * 4 div 4) (0::real),
              blueprintNames = replicate ?n None, outlineData = None\<rparr>"
  from assms(2) have defined: "\<forall>(bp, ro, fid) \<in> set records. ro \<noteq> None"
    using outlineRecords_Some [of fadd fsub g m w] by simp
  have room: "(0 + ?n) * OUTLINE_ARRAY_SIZE \<le> length (sharedView ?s0)"
    "0 + ?n \<le> length (blueprintNames ?s0)"
    by simp_all
  from fill_worker [OF defined room, of fround ?n] obtain s' where
    f: "fill fround True ?n 0 records ?s0 = Inr s'"
      "length (sharedView s') = length (sharedView ?s0)"
      "length (blueprintNames s') = length (blueprintNames ?s0)"
      "\<forall>j < ?n. recordAt fround (sharedView s') (blueprintNames s') (0 + j) (records ! j)"
    by blast
  have run: "dispatch fround rend records =
        Inr ([PostMessage ''draw-outlines''
                \<lparr>byteLength = ?n * 7 * 4, float32 = sharedView s'\<rparr> (blueprintNames s')], rend)"
    using assms(1,3) f(1) by (simp add: dispatch_def Let_def OUTLINE_ARRAY_SIZE_def)
  have lens: "length (sharedView s') = ?n * 7" "length (blueprintNames s') = ?n"
    using f(2,3) by (simp_all add: OUTLINE_ARRAY_SIZE_def)
  have slots: "\<exists>bp r fid. records ! i = (bp, Some r, fid)
          \<and> sharedView s' ! (i * 7) = fround (real fid)
          \<and> sharedView s' ! (i * 7 + 1) = fround (real (count bp))
          \<and> sharedView s' ! (i * 7 + 2) = fround (x r)
          \<and> sharedView s' ! (i * 7 + 3) = fround (y r)
          \<and> sharedView s' ! (i * 7 + 4) = fround (width r)
          \<and> sharedView s' ! (i * 7 + 5) = fround (height r)
          \<and> sharedView s' ! (i * 7 + 6) = fround (real (didCommit bp))
          \<and> blueprintNames s' ! i = Some (name bp)" if i: "i < ?n" for i
  proof -
    obtain bp ro fid where rec: "records ! i = (bp, ro, fid)" by (cases "records ! i")
    from i have "records ! i \<in> set records" by simp
    with defined rec obtain r where ro: "ro = Some r" by fastforce
    from f(4) i have "recordAt fround (sharedView s') (blueprintNames s') i (records ! i)"
      by simp
    then show ?thesis
      unfolding rec ro by (simp add: recordAt_def OUTLINE_ARRAY_SIZE_def)
  qed
  from run lens slots show ?thesis by blast
qed

theorem dispatch_worker_buffer_witness:
  "\<exists>view names.
      dispatch (\<lambda>v. v) withWorker
        (outlineRecords (+) (-) id (accumulate Map.empty [entryA, entryB1]) exampleWindow) =
        Inr ([PostMessage ''draw-outlines'' \<lparr>byteLength = 56, float32 = view\<rparr> names],
             withWorker)
    \<and> length view = 14
    \<and> view ! 7 = 12 \<and> view ! 8 = 2 \<and> view ! 9 = 20 \<and> view ! 10 = 20
    \<and> view ! 11 = 5 \<and> view ! 12 = 5 \<and> view ! 13 = 0
    \<and> names ! 1 = Some ''B''"
proof -
  have w: "worker withWorker" by (simp add: withWorker_def)
  have ne: "outlineRecords (+) (-) id (accumulate Map.empty [entryA, entryB1]) exampleWindow \<noteq> []"
    by (simp add: example_records1)
  from dispatch_worker_buffer [OF w refl ne, of "\<lambda>v. v"] obtain view names where
    d: "dispatch (\<lambda>v. v) withWorker
          (outlineRecords (+) (-) id (accumulate Map.empty [entryA, entryB1]) exampleWindow) =
        Inr ([PostMessage ''draw-outlines''
               \<lparr>byteLength = length (outlineRecords (+) (-) id (accumulate Map.empty [entryA, entryB1])
                   exampleWindow) * 7 * 4, float32 = view\<rparr> names], withWorker)"
      "length view = length (outlineRecords (+) (-) id (accumulate Map.empty [entryA, entryB1])
                   exampleWindow) * 7"
      "\<forall>i < length (outlineRecords (+) (-) id (accumulate Map.empty [entryA, entryB1]) exampleWindow).
         \<exists>bp r fid. outlineRecords (+) (-) id (accumulate Map.empty [entryA, entryB1]) exampleWindow ! i
             = (bp, Some r, fid)
          \<and> view ! (i * 7) = real fid
          \<and> view ! (i * 7 + 1) = real (count bp)
          \<and> view ! (i * 7 + 2) = x r
          \<and> view ! (i * 7 + 3) = y r
          \<and> view ! (i * 7 + 4) = width r
          \<and> view ! (i * 7 + 5) = height r
          \<and> view ! (i * 7 + 6) = real (didCommit bp)
          \<and> names ! i = Some (name bp)"
    by blast
  have lt: "1 < length (outlineRecords (+) (-) id (accumulate Map.empty [entryA, entryB1]) exampleWindow)"
    by (simp add: example_records1)
  from d(3) lt obtain bp r fid where
    s: "outlineRecords (+) (-) id (accumulate Map.empty [entryA, entryB1]) exampleWindow ! 1
             = (bp, Some r, fid)"
      "view ! (1 * 7) = real fid"
      "view ! (1 * 7 + 1) = real (count bp)"
      "view ! (1 * 7 + 2) = x r"
      "view ! (1 * 7 + 3) = y r"
      "view ! (1 * 7 + 4) = width r"
      "view ! (1 * 7 + 5) = height r"
      "view ! (1 * 7 + 6) = real (didCommit bp)"
      "names ! 1 = Some (name bp)"
    by blast
  from s(1) have v: "bp = \<lparr>name = ''B'', count = 2, elements = [Element 20, Element 21],
      didCommit = 0\<rparr>" "r = \<lparr>x = 20, y = 20, width = 5, height = 5\<rparr>" "fid = 12"
    by (simp_all add: example_records1)
  from s(2-9) have "view ! 7 = 12 \<and> view ! 8 = 2 \<and> view ! 9 = 20 \<and> view ! 10 = 20
    \<and> view ! 11 = 5 \<and> view ! 12 = 5 \<and> view ! 13 = 0 \<and> names ! 1 = Some ''B''"
    unfolding v by simp
  with d(1,2) show ?thesis by (simp add: example_records1)
qed














lemma find_Some_mem: "List.find P as = Some a \<Longrightarrow> a \<in> set as \<and> P a"
  by (auto simp: find_Some_iff)

lemma yielded_first_report:
  assumes "entry \<in> set (concat (yielded (getBatchedRectMap elems callbacks)))"
  shows "List.find (\<lambda>e'. target e' = target entry) (concat callbacks) = Some entry"
  using getBatchedRectMap_inv [of elems callbacks] assms by blast

lemma cycle_rect_origin:
  assumes "foldl accumulate Map.empty (take k (yielded (getBatchedRectMap elems callbacks))) e
             = Some r"
  shows "\<exists>entry. List.find (\<lambda>e'. target e' = e) (concat callbacks) = Some entry
           \<and> target entry = e \<and> intersectionRect entry = r \<and> isIntersecting entry
           \<and> width r \<noteq> 0 \<and> height r \<noteq> 0"
proof -
  let ?batches = "yielded (getBatchedRectMap elems callbacks)"
  from assms have "accumulate Map.empty (concat (take k ?batches)) e = Some r"
    by (simp add: foldl_accumulate_concat)
  from accumulate_Some [OF this] obtain entry where
    e: "entry \<in> set (concat (take k ?batches))" "target entry = e"
      "intersectionRect entry = r" "isIntersecting entry" "width r \<noteq> 0" "height r \<noteq> 0"
    by auto
  have "set (take k ?batches) \<subseteq> set ?batches" by (rule set_take_subset)
  with e(1) have "entry \<in> set (concat ?batches)" by auto
  from yielded_first_report [OF this] e show ?thesis by auto
qed

lemma example_dispatch_inProcess2:
  "dispatch fround (inProcess\<lparr>animationFrameId := True\<rparr>)
     [(\<lparr>name = ''A'', count = 1, elements = [Element 10], didCommit = 1\<rparr>,
        Some \<lparr>x = 0, y = 0, width = 10, height = 10\<rparr>, 11),
      (\<lparr>name = ''B'', count = 2, elements = [Element 20, Element 21], didCommit = 0\<rparr>,
        Some \<lparr>x = 20, y = 20, width = 5, height = 5\<rparr>, 12)]
   = Inr ([UpdateOutlines
              [Some \<lparr>oid = 11, oname = ''A'', ocount = 1, ox = 0, oy = 0, owidth = 10,
                      oheight = 10, odidCommit = 1\<rparr>,
               Some \<lparr>oid = 12, oname = ''B'', ocount = 2, ox = 20, oy = 20, owidth = 5,
                      oheight = 5, odidCommit = 0\<rparr>]],
             inProcess\<lparr>animationFrameId := True\<rparr>)"
  by (simp add: dispatch_def inProcess_def Let_def)

text \<open>
  C8 (as amended). Take any point of a flush cycle: \<open>k\<close> batches of the resolver have been
  processed, starting from an empty \<^verbatim>\<open>rectsMap\<close>. Then
  \<^item> a blueprint has a record only if one of its elements has, among the reports of this
    cycle, an intersecting one with non-zero width and height, whose rectangle is the one
    stored for the element;
  \<^item> an element whose first report in the cycle is non-intersecting has no rectangle
    (nothing is carried over from an earlier cycle; later reports of the same element in
    the cycle are ignored);
  \<^item> a blueprint none of whose elements has a rectangle has no record;
  \<^item> and the cycle raises no error.
\<close>

theorem flush_records_from_first_reports:
  assumes "batches = yielded (getBatchedRectMap elems callbacks)"
    and "m = foldl accumulate Map.empty (take k batches)"
  shows "(\<forall>(bp, ro, fid) \<in> set (outlineRecords fadd fsub g m w).
            \<exists>e \<in> set (elements bp). \<exists>entry \<in> set (concat callbacks).
               target entry = e \<and> isIntersecting entry
             \<and> width (intersectionRect entry) \<noteq> 0 \<and> height (intersectionRect entry) \<noteq> 0
             \<and> m e = Some (intersectionRect entry))
       \<and> (\<forall>entry. List.find (\<lambda>e'. target e' = target entry) (concat callbacks) = Some entry
              \<and> \<not> isIntersecting entry \<longrightarrow> m (target entry) = None)
       \<and> (\<forall>bp. (\<forall>e \<in> set (elements bp). m e = None)
              \<longrightarrow> bp \<notin> fst ` set (outlineRecords fadd fsub g m w))
       \<and> (\<exists>res. flushOutlines fround fadd fsub g rend w callbacks = Inr res)"
proof (intro conjI)
  show "\<forall>(bp, ro, fid) \<in> set (outlineRecords fadd fsub g m w).
            \<exists>e \<in> set (elements bp). \<exists>entry \<in> set (concat callbacks).
               target entry = e \<and> isIntersecting entry
             \<and> width (intersectionRect entry) \<noteq> 0 \<and> height (intersectionRect entry) \<noteq> 0
             \<and> m e = Some (intersectionRect entry)"
  proof clarify
    fix bp ro fid
    assume "(bp, ro, fid) \<in> set (outlineRecords fadd fsub g m w)"
    from outlineRecords_merged [OF this] have "resolvedRects m (elements bp) \<noteq> []" by blast
    then obtain e r where e: "e \<in> set (elements bp)" "m e = Some r"
      by (auto simp: resolvedRects_empty)
    from cycle_rect_origin [of k elems callbacks e r] e(2) assms obtain entry where
      "List.find (\<lambda>e'. target e' = e) (concat callbacks) = Some entry"
      "target entry = e" "intersectionRect entry = r" "isIntersecting entry"
      "width r \<noteq> 0" "height r \<noteq> 0"
      by auto
    with e find_Some_mem [of "\<lambda>e'. target e' = e" "concat callbacks" entry]
    show "\<exists>e \<in> set (elements bp). \<exists>entry \<in> set (concat callbacks).
               target entry = e \<and> isIntersecting entry
             \<and> width (intersectionRect entry) \<noteq> 0 \<and> height (intersectionRect entry) \<noteq> 0
             \<and> m e = Some (intersectionRect entry)"
      by blast
  qed
  show "\<forall>entry. List.find (\<lambda>e'. target e' = target entry) (concat callbacks) = Some entry
              \<and> \<not> isIntersecting entry \<longrightarrow> m (target entry) = None"
  proof (intro allI impI)
    fix entry
    assume a: "List.find (\<lambda>e'. target e' = target entry) (concat callbacks) = Some entry
              \<and> \<not> isIntersecting entry"
    show "m (target entry) = None"
    proof (rule ccontr)
      assume "m (target entry) \<noteq> None"
      then obtain r where "m (target entry) = Some r" by auto
      from cycle_rect_origin [of k elems callbacks "target entry" r] this assms
      obtain entry' where
        "List.find (\<lambda>e'. target e' = target entry) (concat callbacks) = Some entry'"
        "isIntersecting entry'"
        by auto
      with a show False by simp
    qed
  qed
  show "\<forall>bp. (\<forall>e \<in> set (elements bp). m e = None)
              \<longrightarrow> bp \<notin> fst ` set (outlineRecords fadd fsub g m w)"
  proof (intro allI impI)
    fix bp :: BlueprintOutline
    assume none: "\<forall>e \<in> set (elements bp). m e = None"
    have "set (map fst (outlineRecords fadd fsub g m w)) \<subseteq> {bp. \<exists>e \<in> set (elements bp). m e \<noteq> None}"
      unfolding outlineRecords_blueprints by auto
    with none show "bp \<notin> fst ` set (outlineRecords fadd fsub g m w)" by auto
  qed
  show "\<exists>res. flushOutlines fround fadd fsub g rend w callbacks = Inr res"
    by (rule flushOutlines_defined)
qed


theorem flush_records_from_first_reports_witness:
  "foldl accumulate Map.empty
      (take 2 (yielded (getBatchedRectMap [Element 10, Element 20, Element 21]
         [[entryA, entryB1], [entryAoff, entryB2]]))) (Element 21) = None
   \<and> (\<exists>e \<in> set [Element 10].
        \<exists>entry \<in> set (concat [[entryA, entryB1], [entryAoff, entryB2]]).
           target entry = e \<and> isIntersecting entry
         \<and> foldl accumulate Map.empty
              (take 2 (yielded (getBatchedRectMap [Element 10, Element 20, Element 21]
                 [[entryA, entryB1], [entryAoff, entryB2]]))) e = Some (intersectionRect entry))"
proof -
  let ?cbs = "[[entryA, entryB1], [entryAoff, entryB2]]"
  let ?batches = "yielded (getBatchedRectMap [Element 10, Element 20, Element 21] ?cbs)"
  let ?m = "foldl accumulate Map.empty (take 2 ?batches)"
  have m: "?m = accumulate (accumulate Map.empty [entryA, entryB1]) [entryB2]"
    by (simp add: example_pass)
  from flush_records_from_first_reports [OF refl refl,
      of "(+)" "(-)" id 2 "[Element 10, Element 20, Element 21]" ?cbs exampleWindow id inProcess]
  have one: "\<forall>(bp, ro, fid) \<in> set (outlineRecords (+) (-) id ?m exampleWindow).
            \<exists>e \<in> set (elements bp). \<exists>entry \<in> set (concat ?cbs).
               target entry = e \<and> isIntersecting entry
             \<and> width (intersectionRect entry) \<noteq> 0 \<and> height (intersectionRect entry) \<noteq> 0
             \<and> ?m e = Some (intersectionRect entry)"
    and two: "\<forall>entry. List.find (\<lambda>e'. target e' = target entry) (concat ?cbs) = Some entry
              \<and> \<not> isIntersecting entry \<longrightarrow> ?m (target entry) = None"
    by blast+
  have "List.find (\<lambda>e'. target e' = target entryB2) (concat ?cbs) = Some entryB2
          \<and> \<not> isIntersecting entryB2"
    by (simp add: entryA_def entryAoff_def entryB1_def entryB2_def)
  with two have "?m (target entryB2) = None" by blast
  then have off: "?m (Element 21) = None" by (simp add: entryB2_def)
  have "(\<lparr>name = ''A'', count = 1, elements = [Element 10], didCommit = 1\<rparr>,
        Some \<lparr>x = 0, y = 0, width = 10, height = 10\<rparr>, 11)
          \<in> set (outlineRecords (+) (-) id ?m exampleWindow)"
    unfolding m by (simp add: example_records2)
  with one have "\<exists>e \<in> set (elements \<lparr>name = ''A'', count = 1, elements = [Element 10],
                     didCommit = 1\<rparr>). \<exists>entry \<in> set (concat ?cbs).
               target entry = e \<and> isIntersecting entry
             \<and> width (intersectionRect entry) \<noteq> 0 \<and> height (intersectionRect entry) \<noteq> 0
             \<and> ?m e = Some (intersectionRect entry)"
    by blast
  then have "\<exists>e \<in> set [Element 10]. \<exists>entry \<in> set (concat ?cbs).
               target entry = e \<and> isIntersecting entry
             \<and> ?m e = Some (intersectionRect entry)"
    by auto
  with off show ?thesis by blast
qed

text \<open>
  C8 as stated fails inside one cycle. The element of A reports an intersecting rectangle
  in the first callback and reports as non-intersecting in the second: the resolver drops
  the second report (the element was already seen), \<^verbatim>\<open>rectsMap\<close> keeps the first
  rectangle, and the record of A is dispatched again, with that rectangle, after the
  second batch.
\<close>

theorem flush_keeps_rect_after_later_report:
  "entryAoff \<in> set (concat [[entryA, entryB1], [entryAoff, entryB2]])
   \<and> target entryAoff = Element 10
   \<and> \<not> isIntersecting entryAoff
   \<and> elements \<lparr>name = ''A'', count = 1, elements = [Element 10], didCommit = 1\<rparr> = [Element 10]
   \<and> map_sum id fst
        (flushOutlines id (+) (-) id inProcess exampleWindow [[entryA, entryB1], [entryAoff, entryB2]])
      = Inr [[UpdateOutlines
                [Some \<lparr>oid = 11, oname = ''A'', ocount = 1, ox = 0, oy = 0, owidth = 10,
                        oheight = 10, odidCommit = 1\<rparr>,
                 Some \<lparr>oid = 12, oname = ''B'', ocount = 2, ox = 20, oy = 20, owidth = 5,
                        oheight = 5, odidCommit = 0\<rparr>],
              RequestAnimationFrame],
             [UpdateOutlines
                [Some \<lparr>oid = 11, oname = ''A'', ocount = 1, ox = 0, oy = 0, owidth = 10,
                        oheight = 10, odidCommit = 1\<rparr>,
                 Some \<lparr>oid = 12, oname = ''B'', ocount = 2, ox = 20, oy = 20, owidth = 5,
                        oheight = 5, odidCommit = 0\<rparr>]]]"
proof -
  have run: "flushLoop id (+) (-) id (Map.empty, inProcess)
       [([entryA, entryB1], exampleWindow), ([entryB2], exampleWindow)]
     = Inr ([[UpdateOutlines
                [Some \<lparr>oid = 11, oname = ''A'', ocount = 1, ox = 0, oy = 0, owidth = 10,
                        oheight = 10, odidCommit = 1\<rparr>,
                 Some \<lparr>oid = 12, oname = ''B'', ocount = 2, ox = 20, oy = 20, owidth = 5,
                        oheight = 5, odidCommit = 0\<rparr>],
              RequestAnimationFrame],
             [UpdateOutlines
                [Some \<lparr>oid = 11, oname = ''A'', ocount = 1, ox = 0, oy = 0, owidth = 10,
                        oheight = 10, odidCommit = 1\<rparr>,
                 Some \<lparr>oid = 12, oname = ''B'', ocount = 2, ox = 20, oy = 20, owidth = 5,
                        oheight = 5, odidCommit = 0\<rparr>]]],
            accumulate (accumulate Map.empty [entryA, entryB1]) [entryB2],
            inProcess\<lparr>animationFrameId := True\<rparr>)"
    by (simp add: flushBatch_def example_records1 example_records2 example_dispatch_inProcess
        example_dispatch_inProcess2 del: One_nat_def)
  have steps: "map (\<lambda>entries. (entries, exampleWindow)) [[entryA, entryB1], [entryB2]]
      = [([entryA, entryB1], exampleWindow), ([entryB2], exampleWindow)]"
    by simp
  show ?thesis
    unfolding flushOutlines_def Let_def example_elements example_pass(1) steps run
    by (simp add: entryAoff_def)
qed

section \<open>Termination of a resolution pass\<close>

text \<open>
  For at least one element: if the host's callbacks report exactly the observed elements
  (each at least once, in whatever grouping and with whatever repetitions), the pass ends
  with the observer disconnected, the \<^verbatim>\<open>done\<close> flag set and the generator returned; the
  yielded batches are non-empty and hold every element exactly once, each with its first
  report.
\<close>

lemma getBatchedRectMap_each_once:
  assumes "elems \<noteq> []" and "target ` set (concat callbacks) = set elems"
  shows "returned (getBatchedRectMap elems callbacks)
       \<and> \<not> observing (getBatchedRectMap elems callbacks)
       \<and> doneFlag (state (getBatchedRectMap elems callbacks))
       \<and> distinct (map target (concat (yielded (getBatchedRectMap elems callbacks))))
       \<and> set (map target (concat (yielded (getBatchedRectMap elems callbacks)))) = set elems
       \<and> [] \<notin> set (yielded (getBatchedRectMap elems callbacks))
       \<and> (\<forall>e \<in> set (concat (yielded (getBatchedRectMap elems callbacks))).
            List.find (\<lambda>e'. target e' = target e) (concat callbacks) = Some e)"
proof -
  let ?p = "getBatchedRectMap elems callbacks"
  from getBatchedRectMap_completes [OF assms] have idle: "\<not> observing ?p" .
  from getBatchedRectMap_inv [of elems callbacks] have
    inv: "passInv (newSet elems) ?p"
    and sub: "set (seenElements (state ?p)) \<subseteq> target ` set (concat callbacks)"
    and first: "\<forall>e \<in> set (concat (yielded ?p)).
        List.find (\<lambda>e'. target e' = target e) (concat callbacks) = Some e"
    by blast+
  from inv idle have fin: "doneFlag (state ?p)" "returned ?p"
    and len: "length (seenElements (state ?p)) = length (newSet elems)"
    and dist: "distinct (seenElements (state ?p))"
    and tgt: "map target (concat (yielded ?p)) = seenElements (state ?p)"
    and ne: "[] \<notin> set (yielded ?p)"
    by (simp_all add: passInv_def)
  from sub assms(2) have "set (seenElements (state ?p)) \<subseteq> set (newSet elems)"
    by (simp add: set_newSet)
  moreover from len dist distinct_newSet [of elems]
  have "card (set (seenElements (state ?p))) = card (set (newSet elems))"
    by (simp add: distinct_card)
  ultimately have "set (seenElements (state ?p)) = set (newSet elems)"
    by (simp add: card_subset_eq)
  then have all: "set (map target (concat (yielded ?p))) = set elems"
    by (simp add: tgt set_newSet)
  from dist have "distinct (map target (concat (yielded ?p)))" by (simp add: tgt)
  with fin idle all ne first show ?thesis by blast
qed

text \<open>
  C5, at the input where the code departs from it. For an empty element set nothing is
  observed, so the host never calls back; the only place that sets \<^verbatim>\<open>done\<close> and
  disconnects is the callback. The generator therefore stays suspended at its first
  \<^verbatim>\<open>await\<close> with the observer connected, and a flush cycle whose blueprints have no
  element (a component that renders no DOM node) never reaches the code that clears the
  aggregation window.
\<close>

theorem getBatchedRectMap_no_elements:
  "getBatchedRectMap [] [] =
     \<lparr>state = \<lparr>resolveNext = True, seenElements = [], uniqueElements = [], doneFlag = False\<rparr>,
      observing = True, yielded = [], returned = False\<rparr>
   \<and> collectElements (blueprintMap (outlineFiber fiberNull emptyWindow))
        (blueprintMapKeys (outlineFiber fiberNull emptyWindow)) = []
   \<and> blueprintMapKeys (outlineFiber fiberNull emptyWindow) = [13]
   \<and> flushOutlines fround fadd fsub g inProcess (outlineFiber fiberNull emptyWindow) []
       = Inr ([], inProcess, None)"
  by (simp add: getBatchedRectMap_def startPass_def awaitNext_def newSet_def
      flushOutlines_def outlineFiber_def fiberNull_def emptyWindow_def truthyName_def
      fiberName_def setAdd_def)

section \<open>Properties of option validation\<close>

lemma map_of_setProp: "map_of (setProp key v obj) = (map_of obj)(key \<mapsto> v)"
  by (induction obj) (auto simp: fun_eq_iff)

lemma keys_setProp: "set (objectKeys (setProp key v obj)) = insert key (set (objectKeys obj))"
proof -
  have "set (objectKeys (setProp key v obj)) = dom (map_of (setProp key v obj))"
    by (simp add: objectKeys_def dom_map_of_conv_image_fst)
  also have "\<dots> = insert key (dom (map_of obj))"
    by (simp add: map_of_setProp)
  finally show ?thesis
    by (simp add: objectKeys_def dom_map_of_conv_image_fst)
qed

lemma map_of_spread: "map_of (spread a b) = map_of a ++ map_of (rev b)"
proof -
  have "map_of (foldl (\<lambda>obj (key, v). setProp key v obj) a b) = map_of a ++ map_of (rev b)"
  proof (induction b arbitrary: a)
    case Nil
    show ?case by simp
  next
    case (Cons field b)
    obtain key v where field: "field = (key, v)" by (cases field)
    have "map_of (setProp key v a) ++ map_of (rev b) = map_of a ++ ([key \<mapsto> v] ++ map_of (rev b))"
      by (auto simp: map_of_setProp map_add_def fun_eq_iff split: option.splits)
    then show ?case unfolding field by (simp add: Cons.IH)
  qed
  then show ?thesis by (simp add: spread_def)
qed


lemma validateField_validOptions:
  "validOptions (validateField current acc (key, v)) =
     (if isOptionKey current key \<and> validValue key v
      then setProp key v (validOptions acc) else validOptions acc)"
  by (simp add: validateField_def validValue_def Let_def)


lemma distinct_setProp:
  "distinct (map fst obj) \<Longrightarrow> distinct (map fst (setProp key v obj))"
proof (induction obj)
  case Nil
  show ?case by simp
next
  case (Cons p obj)
  obtain k' v' where p: "p = (k', v')" by (cases p)
  from Cons have d: "distinct (map fst (setProp key v obj))" by simp
  have "set (map fst (setProp key v obj)) = insert key (set (map fst obj))"
    using keys_setProp [of key v obj] by (simp add: objectKeys_def)
  with Cons.prems d show ?case unfolding p by auto
qed

lemma validateOptions_fold:
  "map_of (validOptions (foldl (validateField current) acc opts)) =
     map_of (validOptions acc) ++
       map_of (rev (filter (\<lambda>(key, v). isOptionKey current key \<and> validValue key v) opts))
   \<and> (distinct (map fst (validOptions acc)) \<longrightarrow>
        distinct (map fst (validOptions (foldl (validateField current) acc opts))))"
proof (induction opts arbitrary: acc)
  case Nil
  show ?case by simp
next
  case (Cons field opts)
  obtain key v where field: "field = (key, v)" by (cases field)
  show ?case
  proof (cases "isOptionKey current key \<and> validValue key v")
    case True
    then have step: "validOptions (validateField current acc (key, v))
        = setProp key v (validOptions acc)"
      by (simp add: validateField_validOptions)
    have "map_of (setProp key v (validOptions acc)) ++ map_of (rev (filter
            (\<lambda>(key, v). isOptionKey current key \<and> validValue key v) opts))
        = map_of (validOptions acc) ++ ([key \<mapsto> v] ++ map_of (rev (filter
            (\<lambda>(key, v). isOptionKey current key \<and> validValue key v) opts)))"
      by (auto simp: map_of_setProp map_add_def fun_eq_iff split: option.splits)
    with True step Cons.IH [of "validateField current acc (key, v)"] show ?thesis
      unfolding field by (simp add: distinct_setProp)
  next
    case False
    then have step: "validOptions (validateField current acc (key, v)) = validOptions acc"
      by (auto simp: validateField_validOptions)
    with False Cons.IH [of "validateField current acc (key, v)"] show ?thesis
      unfolding field by auto
  qed
qed

lemma map_of_rev_distinct:
  "distinct (map fst ps) \<Longrightarrow> map_of (rev ps) = map_of ps"
proof (induction ps)
  case Nil
  show ?case by simp
next
  case (Cons p ps)
  obtain k v where p: "p = (k, v)" by (cases p)
  from Cons.prems p have "map_of ps k = None"
    by (auto simp: map_of_eq_None_iff)
  with Cons show ?case
    unfolding p by (auto simp: map_add_def fun_eq_iff split: option.splits)
qed

lemma map_of_filter_distinct:
  "distinct (map fst ps) \<Longrightarrow>
     map_of (filter P ps) k =
       (case map_of ps k of None \<Rightarrow> None | Some v \<Rightarrow> if P (k, v) then Some v else None)"
proof (induction ps)
  case Nil
  show ?case by simp
next
  case (Cons p ps)
  obtain k' v' where p: "p = (k', v')" by (cases p)
  show ?case
  proof (cases "k' = k")
    case True
    with Cons.prems p have "k \<notin> fst ` set ps" by auto
    then have "map_of (filter P ps) k = None"
      by (auto simp: map_of_eq_None_iff)
    with True show ?thesis unfolding p by simp
  next
    case False
    with Cons show ?thesis unfolding p by simp
  qed
qed

lemma validateOptions_valid:
  assumes "distinct (map fst userOptions)"
  shows "map_of (validOptions (validateOptions current userOptions)) key =
       (case map_of userOptions key of None \<Rightarrow> None
        | Some v \<Rightarrow> if isOptionKey current key \<and> validValue key v then Some v else None)"
    and "distinct (map fst (validOptions (validateOptions current userOptions)))"
proof -
  let ?P = "\<lambda>(key, v). isOptionKey current key \<and> validValue key v"
  from assms have d: "distinct (map fst (filter ?P userOptions))"
    by (rule distinct_map_filter)
  from validateOptions_fold [of current "\<lparr>errors = [], validOptions = []\<rparr>" userOptions]
  have "map_of (validOptions (validateOptions current userOptions))
      = map_of (rev (filter ?P userOptions))"
    and dv: "distinct (map fst (validOptions (validateOptions current userOptions)))"
    by (simp_all add: validateOptions_def)
  then have "map_of (validOptions (validateOptions current userOptions)) key
      = map_of (filter ?P userOptions) key"
    using map_of_rev_distinct [OF d] by simp
  also have "\<dots> = (case map_of userOptions key of None \<Rightarrow> None
        | Some v \<Rightarrow> if isOptionKey current key \<and> validValue key v then Some v else None)"
    using map_of_filter_distinct [OF assms, of ?P key] by (simp split: option.splits)
  finally show "map_of (validOptions (validateOptions current userOptions)) key =
       (case map_of userOptions key of None \<Rightarrow> None
        | Some v \<Rightarrow> if isOptionKey current key \<and> validValue key v then Some v else None)" .
  from dv show "distinct (map fst (validOptions (validateOptions current userOptions)))" .
qed

text \<open>
  What \<^verbatim>\<open>setOptions\<close> does field by field, for an options object whose keys are distinct:
  a field is applied when its key is among the keys of the current options object and its
  value is admissible, and every other key keeps its previous value. One rejected field
  never affects another.
\<close>

lemma setOptions_fieldwise:
  assumes "distinct (map fst userOptions)"
  shows "map_of (fst (setOptions st userOptions)) key =
       (case map_of userOptions key of None \<Rightarrow> map_of (optionsValue st) key
        | Some v \<Rightarrow> if isOptionKey (optionsValue st) key \<and> validValue key v then Some v
                    else map_of (optionsValue st) key)"
proof -
  let ?valid = "validOptions (validateOptions (optionsValue st) userOptions)"
  note v = validateOptions_valid [OF assms, of "optionsValue st"]
  have spread: "map_of (spread (optionsValue st) ?valid) key =
       (case map_of userOptions key of None \<Rightarrow> map_of (optionsValue st) key
        | Some v \<Rightarrow> if isOptionKey (optionsValue st) key \<and> validValue key v then Some v
                    else map_of (optionsValue st) key)"
    using v(1) [of key] map_of_rev_distinct [OF v(2)]
    by (simp add: map_of_spread map_add_def split: option.splits)
  show ?thesis
  proof (cases "length (objectKeys ?valid) = 0 \<and> \<not> hasOwnProperty userOptions ''enabled''")
    case True
    then have "?valid = []" by (simp add: objectKeys_def)
    with spread have "map_of (optionsValue st) key =
       (case map_of userOptions key of None \<Rightarrow> map_of (optionsValue st) key
        | Some v \<Rightarrow> if isOptionKey (optionsValue st) key \<and> validValue key v then Some v
                    else map_of (optionsValue st) key)"
      by (simp add: map_of_spread)
    with True show ?thesis by (simp add: setOptions_def Let_def)
  next
    case False
    then have "fst (setOptions st userOptions) = spread (optionsValue st) ?valid"
      by (auto simp: setOptions_def Let_def)
    with spread show ?thesis by simp
  qed
qed


text \<open>
  C9, at the input where the code departs from it. \<^verbatim>\<open>trackUnnecessaryRenders\<close> and
  \<^verbatim>\<open>onRender\<close> are declared options and the values below are admissible for them (the
  \<^verbatim>\<open>switch\<close> of \<^verbatim>\<open>validateOptions\<close> has a \<^verbatim>\<open>case\<close> for each), yet \<^verbatim>\<open>isOptionKey\<close> only
  knows the keys of the current options object, which never holds them. From the
  defaults, a call with \<^verbatim>\<open>trackUnnecessaryRenders: true\<close> and \<^verbatim>\<open>log: true\<close> applies \<^verbatim>\<open>log\<close>
  alone, and a call with \<^verbatim>\<open>trackUnnecessaryRenders: true\<close> and a function for \<^verbatim>\<open>onRender\<close>
  changes nothing.
\<close>

theorem setOptions_drops_declared_options:
  "validValue ''trackUnnecessaryRenders'' (Boolean True)
   \<and> validValue ''onRender'' (Function 0)
   \<and> fst (setOptions \<lparr>optionsValue = defaultOptions, isPaused = None\<rparr>
        [(''trackUnnecessaryRenders'', Boolean True), (''log'', Boolean True)])
      = [(''enabled'', Boolean True),
         (''log'', Boolean True),
         (''showToolbar'', Boolean True),
         (''animationSpeed'', String ''fast''),
         (''dangerouslyForceRunInProduction'', Boolean False),
         (''showFPS'', Boolean True),
         (''showNotificationCount'', Boolean True)]
   \<and> setOptions \<lparr>optionsValue = defaultOptions, isPaused = None\<rparr>
        [(''trackUnnecessaryRenders'', Boolean True), (''onRender'', Function 0)]
      = (defaultOptions, \<lparr>optionsValue = defaultOptions, isPaused = None\<rparr>, [])"
proof -
  have v1: "validOptions (validateOptions defaultOptions
        [(''trackUnnecessaryRenders'', Boolean True), (''log'', Boolean True)])
      = [(''log'', Boolean True)]"
    by (simp add: validateOptions_def validateField_def isOptionKey_def defaultOptions_def
        objectKeys_def booleanKeys_def isBoolean_def)
  have v2: "validOptions (validateOptions defaultOptions
        [(''trackUnnecessaryRenders'', Boolean True), (''onRender'', Function 0)]) = []"
    by (simp add: validateOptions_def validateField_def isOptionKey_def defaultOptions_def
        objectKeys_def)
  have s1: "fst (setOptions \<lparr>optionsValue = defaultOptions, isPaused = None\<rparr>
        [(''trackUnnecessaryRenders'', Boolean True), (''log'', Boolean True)])
      = spread defaultOptions [(''log'', Boolean True)]"
    by (simp add: setOptions_def Let_def v1 objectKeys_def)
  have s2: "setOptions \<lparr>optionsValue = defaultOptions, isPaused = None\<rparr>
        [(''trackUnnecessaryRenders'', Boolean True), (''onRender'', Function 0)]
      = (defaultOptions, \<lparr>optionsValue = defaultOptions, isPaused = None\<rparr>, [])"
    by (simp add: setOptions_def Let_def v2 objectKeys_def hasOwnProperty_def)
  have s3: "spread defaultOptions [(''log'', Boolean True)]
      = [(''enabled'', Boolean True),
         (''log'', Boolean True),
         (''showToolbar'', Boolean True),
         (''animationSpeed'', String ''fast''),
         (''dangerouslyForceRunInProduction'', Boolean False),
         (''showFPS'', Boolean True),
         (''showNotificationCount'', Boolean True)]"
    by (simp add: spread_def defaultOptions_def)
  have ok: "validValue ''trackUnnecessaryRenders'' (Boolean True)"
    "validValue ''onRender'' (Function 0)"
    by (simp_all add: validValue_def booleanKeys_def callbackKeys_def isBoolean_def
        isFunction_def)
  from ok s1 s2 s3 show ?thesis by simp
qed

end
